theory Spec2Isabelle
  imports Main "HOL-Library.Word"
begin

unbundle bit_operations_syntax

section \<open>Build-time configuration (include/config.h)\<close>

definition RELAY_COUNT :: nat where
  "RELAY_COUNT = 4"

definition LED_BUILTIN_GPIO :: nat where
  "LED_BUILTIN_GPIO = 2"

definition LED_BLINK_ON_MS :: nat where
  "LED_BLINK_ON_MS = 50"

definition LED_BLINK_COUNT :: nat where
  "LED_BLINK_COUNT = 1"

text \<open>The two preprocessor switches; the model keeps both branches of every \<open>#if\<close>.\<close>

definition RELAY_ACTIVE_LOW :: bool where
  "RELAY_ACTIVE_LOW = True"

definition RELAY_PERSIST_STATE :: bool where
  "RELAY_PERSIST_STATE = True"

definition RELAY_DEBOUNCE_MS :: "32 word" where
  "RELAY_DEBOUNCE_MS = 50"

definition NVS_NAMESPACE :: string where
  "NVS_NAMESPACE = ''relay_ctrl''"

definition NVS_KEY_RELAY_STATE :: string where
  "NVS_KEY_RELAY_STATE = ''relay_state''"

section \<open>Data model (include/relay_service.h)\<close>

datatype relay_state_t = RELAY_OFF | RELAY_ON

text \<open>The enum's integer value, as the C code returns it through \<open>int\<close>.\<close>

fun state_int :: "relay_state_t \<Rightarrow> int" where
  "state_int RELAY_OFF = 0"
| "state_int RELAY_ON = 1"

definition RELAY_DEFAULT_STATE :: relay_state_t where
  "RELAY_DEFAULT_STATE = RELAY_OFF"

record relay_info_t =
  gpio_pin :: nat
  name :: string
  state :: relay_state_t

text \<open>\<open>esp_err_t\<close>: the codes the service tells apart, and any other code.\<close>

datatype esp_err_t = ESP_OK | ESP_ERR_INVALID_ARG | ESP_ERR_NVS_NOT_FOUND | ESP_ERR_CODE int

section \<open>The platform: GPIO lines, the NVS key-value store, the call log\<close>

datatype nvs_open_mode = NVS_READONLY | NVS_READWRITE

text \<open>Every call the service makes into the platform, in the order it is made.\<close>

datatype platform_call =
    Gpio_config nat
  | Gpio_set_level nat nat
  | TaskDelay_ms nat
  | Nvs_open string nvs_open_mode
  | Nvs_set_u8 string "8 word"
  | Nvs_get_u8 string
  | Nvs_commit
  | Nvs_close

text \<open>
  One record holds the file-scope variables of relay_service.c (\<open>relays\<close>,
  \<open>last_toggle_time\<close>, \<open>led_initialized\<close>) and the platform they act on:
  the level last driven on each GPIO line, the result \<open>gpio_config\<close> gives for a pin,
  the NVS namespaces with their 8-bit entries, the result each NVS call gives when the
  store is faulty (\<open>ESP_OK\<close> when it is healthy), and the log of platform calls.
\<close>

record sys =
  relays :: "relay_info_t list"
  last_toggle_time :: "32 word list"
  led_initialized :: bool
  gpio_level :: "nat \<Rightarrow> nat option"
  gpio_config_ret :: "nat \<Rightarrow> esp_err_t"
  nvs_store :: "string \<Rightarrow> (string \<Rightarrow> 8 word option) option"
  nvs_open_fault :: esp_err_t
  nvs_set_fault :: esp_err_t
  nvs_commit_fault :: esp_err_t
  nvs_get_fault :: esp_err_t
  calls :: "platform_call list"

definition gpio_config :: "nat \<Rightarrow> sys \<Rightarrow> esp_err_t \<times> sys" where
  "gpio_config pin s = (gpio_config_ret s pin, s\<lparr>calls := calls s @ [Gpio_config pin]\<rparr>)"

definition gpio_set_level :: "nat \<Rightarrow> nat \<Rightarrow> sys \<Rightarrow> sys" where
  "gpio_set_level pin lvl s =
     s\<lparr>gpio_level := (gpio_level s)(pin \<mapsto> lvl), calls := calls s @ [Gpio_set_level pin lvl]\<rparr>"

definition vTaskDelay_ms :: "nat \<Rightarrow> sys \<Rightarrow> sys" where
  "vTaskDelay_ms ms s = s\<lparr>calls := calls s @ [TaskDelay_ms ms]\<rparr>"

text \<open>
  \<open>nvs_open\<close>: a read-only open of a namespace that was never written fails with
  \<open>ESP_ERR_NVS_NOT_FOUND\<close>; a read-write open creates it.
\<close>

definition nvs_open :: "string \<Rightarrow> nvs_open_mode \<Rightarrow> sys \<Rightarrow> esp_err_t \<times> sys" where
  "nvs_open ns mode s =
     (let s1 = s\<lparr>calls := calls s @ [Nvs_open ns mode]\<rparr> in
      if nvs_open_fault s \<noteq> ESP_OK then (nvs_open_fault s, s1)
      else case mode of
        NVS_READONLY \<Rightarrow>
          (if nvs_store s ns = None then (ESP_ERR_NVS_NOT_FOUND, s1) else (ESP_OK, s1))
      | NVS_READWRITE \<Rightarrow>
          (if nvs_store s ns = None
           then (ESP_OK, s1\<lparr>nvs_store := (nvs_store s)(ns \<mapsto> (\<lambda>k. None))\<rparr>)
           else (ESP_OK, s1)))"

definition nvs_set_u8 :: "string \<Rightarrow> string \<Rightarrow> 8 word \<Rightarrow> sys \<Rightarrow> esp_err_t \<times> sys" where
  "nvs_set_u8 ns key v s =
     (let s1 = s\<lparr>calls := calls s @ [Nvs_set_u8 key v]\<rparr> in
      if nvs_set_fault s \<noteq> ESP_OK then (nvs_set_fault s, s1)
      else case nvs_store s ns of
        None \<Rightarrow> (ESP_OK, s1\<lparr>nvs_store := (nvs_store s)(ns \<mapsto> [key \<mapsto> v])\<rparr>)
      | Some entries \<Rightarrow> (ESP_OK, s1\<lparr>nvs_store := (nvs_store s)(ns \<mapsto> entries(key \<mapsto> v))\<rparr>))"

text \<open>\<open>nvs_get_u8\<close> leaves the caller's variable (\<open>out\<close>) as it was when it fails.\<close>

definition nvs_get_u8 :: "string \<Rightarrow> string \<Rightarrow> 8 word \<Rightarrow> sys \<Rightarrow> (esp_err_t \<times> 8 word) \<times> sys" where
  "nvs_get_u8 ns key out s =
     (let s1 = s\<lparr>calls := calls s @ [Nvs_get_u8 key]\<rparr> in
      if nvs_get_fault s \<noteq> ESP_OK then ((nvs_get_fault s, out), s1)
      else case nvs_store s ns of
        None \<Rightarrow> ((ESP_ERR_NVS_NOT_FOUND, out), s1)
      | Some entries \<Rightarrow>
          (case entries key of
             None \<Rightarrow> ((ESP_ERR_NVS_NOT_FOUND, out), s1)
           | Some v \<Rightarrow> ((ESP_OK, v), s1)))"

definition nvs_commit :: "sys \<Rightarrow> esp_err_t \<times> sys" where
  "nvs_commit s = (nvs_commit_fault s, s\<lparr>calls := calls s @ [Nvs_commit]\<rparr>)"

definition nvs_close :: "sys \<Rightarrow> sys" where
  "nvs_close s = s\<lparr>calls := calls s @ [Nvs_close]\<rparr>"

section \<open>relay_service.c\<close>

subsection \<open>File-scope variables at power-on\<close>

definition relays_initial :: "relay_info_t list" where
  "relays_initial =
     [\<lparr>gpio_pin = 16, name = ''Light 1'', state = RELAY_DEFAULT_STATE\<rparr>,
      \<lparr>gpio_pin = 17, name = ''Light 2'', state = RELAY_DEFAULT_STATE\<rparr>,
      \<lparr>gpio_pin = 18, name = ''Fan 1'', state = RELAY_DEFAULT_STATE\<rparr>,
      \<lparr>gpio_pin = 19, name = ''Fan 2'', state = RELAY_DEFAULT_STATE\<rparr>]"

text \<open>
  The static initialisers, over a platform \<open>p\<close> on which no line has been driven and no
  call made since reset; the store and its fault results are those of \<open>p\<close>.
\<close>

definition power_on :: "sys \<Rightarrow> sys" where
  "power_on p =
     p\<lparr>relays := relays_initial,
       last_toggle_time := replicate RELAY_COUNT 0,
       led_initialized := False,
       gpio_level := (\<lambda>pin. None),
       calls := []\<rparr>"

subsection \<open>Private functions\<close>

definition init_led :: "sys \<Rightarrow> sys" where
  "init_led s =
     (if led_initialized s then s
      else let (ret, s1) = gpio_config LED_BUILTIN_GPIO s;
               s2 = gpio_set_level LED_BUILTIN_GPIO 0 s1
           in s2\<lparr>led_initialized := True\<rparr>)"

text \<open>One pass through the body of the loop in \<open>blink_led\<close>, with loop counter \<open>i\<close>.\<close>

definition blink_once :: "nat \<Rightarrow> sys \<Rightarrow> sys" where
  "blink_once i s =
     (let s1 = gpio_set_level LED_BUILTIN_GPIO 1 s;
          s2 = vTaskDelay_ms LED_BLINK_ON_MS s1;
          s3 = gpio_set_level LED_BUILTIN_GPIO 0 s2
      in if int i < int LED_BLINK_COUNT - 1 then vTaskDelay_ms LED_BLINK_ON_MS s3 else s3)"

definition blink_led :: "sys \<Rightarrow> sys" where
  "blink_led s =
     (if \<not> led_initialized s then s
      else fold blink_once [0..<LED_BLINK_COUNT] s)"

definition apply_gpio_state :: "nat \<Rightarrow> sys \<Rightarrow> sys" where
  "apply_gpio_state relay_id s =
     (if relay_id \<ge> RELAY_COUNT then s
      else let lvl =
             (if RELAY_ACTIVE_LOW
              then (if state (relays s ! relay_id) = RELAY_ON then 0 else 1)
              else (if state (relays s ! relay_id) = RELAY_ON then 1 else 0))
           in gpio_set_level (gpio_pin (relays s ! relay_id)) lvl s)"

text \<open>
  \<open>debounce_check\<close>. \<open>period\<close> is FreeRTOS's \<open>portTICK_PERIOD_MS\<close> and \<open>ticks\<close> the
  value \<open>xTaskGetTickCount()\<close> returns at this call; the product and the difference are
  32-bit unsigned, as in C.
\<close>

definition debounce_check :: "32 word \<Rightarrow> 32 word \<Rightarrow> nat \<Rightarrow> sys \<Rightarrow> bool \<times> sys" where
  "debounce_check period ticks relay_id s =
     (let now = ticks * period in
      if now - last_toggle_time s ! relay_id < RELAY_DEBOUNCE_MS then (False, s)
      else (True, s\<lparr>last_toggle_time := (last_toggle_time s)[relay_id := now]\<rparr>))"

subsection \<open>Persistence\<close>

text \<open>
  The body of the packing loop of \<open>relay_save_states\<close> (\<open>packed_states |= (1 << i)\<close>
  for a relay that is on), and the loop from \<open>packed_states = 0\<close>.
\<close>

definition pack_step :: "relay_info_t list \<Rightarrow> nat \<Rightarrow> 8 word \<Rightarrow> 8 word" where
  "pack_step rs i packed =
     (if state (rs ! i) = RELAY_ON then packed OR push_bit i 1 else packed)"

definition pack_states :: "relay_info_t list \<Rightarrow> 8 word" where
  "pack_states rs = fold (pack_step rs) [0..<RELAY_COUNT] 0"

definition relay_save_states :: "sys \<Rightarrow> esp_err_t \<times> sys" where
  "relay_save_states s =
     (let (ret, s1) = nvs_open NVS_NAMESPACE NVS_READWRITE s in
      if ret \<noteq> ESP_OK then (ret, s1)
      else let packed_states = pack_states (relays s1);
               (ret2, s2) = nvs_set_u8 NVS_NAMESPACE NVS_KEY_RELAY_STATE packed_states s1
           in if ret2 \<noteq> ESP_OK then (ret2, nvs_close s2)
              else let (ret3, s3) = nvs_commit s2 in (ret3, nvs_close s3))"

text \<open>
  The body of the unpacking loop of \<open>relay_load_states\<close>:
  \<open>relays[i].state = (packed_states & (1 << i)) ? RELAY_ON : RELAY_OFF\<close>.
\<close>

definition unpack_step :: "8 word \<Rightarrow> nat \<Rightarrow> relay_info_t list \<Rightarrow> relay_info_t list" where
  "unpack_step packed i rs =
     rs[i := (rs ! i)\<lparr>state := (if packed AND push_bit i 1 \<noteq> 0 then RELAY_ON else RELAY_OFF)\<rparr>]"

definition relay_load_states :: "sys \<Rightarrow> esp_err_t \<times> sys" where
  "relay_load_states s =
     (let (ret, s1) = nvs_open NVS_NAMESPACE NVS_READONLY s in
      if ret \<noteq> ESP_OK then (ret, s1)
      else let ((ret2, packed_states), s2) = nvs_get_u8 NVS_NAMESPACE NVS_KEY_RELAY_STATE 0 s1;
               s3 = nvs_close s2
           in if ret2 \<noteq> ESP_OK then (ret2, s3)
              else (ESP_OK, s3\<lparr>relays := fold (unpack_step packed_states) [0..<RELAY_COUNT] (relays s3)\<rparr>))"

subsection \<open>Commands\<close>

text \<open>
  Three pieces of code that recur in the commands: the flipped state
  \<open>(state == RELAY_ON) ? RELAY_OFF : RELAY_ON\<close>, the assignment
  \<open>relays[relay_id].state = st\<close>, and the block under \<open>#if RELAY_PERSIST_STATE\<close>, which
  calls \<open>relay_save_states\<close> and drops its result.
\<close>

definition toggled :: "relay_state_t \<Rightarrow> relay_state_t" where
  "toggled st = (if st = RELAY_ON then RELAY_OFF else RELAY_ON)"

definition set_relay :: "nat \<Rightarrow> relay_state_t \<Rightarrow> sys \<Rightarrow> sys" where
  "set_relay relay_id st s = s\<lparr>relays := (relays s)[relay_id := (relays s ! relay_id)\<lparr>state := st\<rparr>]\<rparr>"

definition save_if_persist :: "sys \<Rightarrow> sys" where
  "save_if_persist s = (if RELAY_PERSIST_STATE then snd (relay_save_states s) else s)"

definition relay_toggle :: "32 word \<Rightarrow> 32 word \<Rightarrow> nat \<Rightarrow> sys \<Rightarrow> int \<times> sys" where
  "relay_toggle period ticks relay_id s =
     (if relay_id \<ge> RELAY_COUNT then (-1, s)
      else let (ok, s1) = debounce_check period ticks relay_id s in
        if \<not> ok then (state_int (state (relays s1 ! relay_id)), s1)
        else let s2 = set_relay relay_id (toggled (state (relays s1 ! relay_id))) s1;
                 s3 = apply_gpio_state relay_id s2;
                 s4 = blink_led s3;
                 s5 = save_if_persist s4
             in (state_int (state (relays s5 ! relay_id)), s5))"

definition relay_set_state :: "nat \<Rightarrow> relay_state_t \<Rightarrow> sys \<Rightarrow> esp_err_t \<times> sys" where
  "relay_set_state relay_id st s =
     (if relay_id \<ge> RELAY_COUNT then (ESP_ERR_INVALID_ARG, s)
      else let s1 = set_relay relay_id st s;
               s2 = apply_gpio_state relay_id s1;
               s3 = blink_led s2;
               s4 = save_if_persist s3
           in (ESP_OK, s4))"

definition relay_get_state :: "nat \<Rightarrow> sys \<Rightarrow> int" where
  "relay_get_state relay_id s =
     (if relay_id \<ge> RELAY_COUNT then -1 else state_int (state (relays s ! relay_id)))"

definition relay_get_info :: "nat \<Rightarrow> sys \<Rightarrow> relay_info_t option" where
  "relay_get_info relay_id s =
     (if relay_id \<ge> RELAY_COUNT then None else Some (relays s ! relay_id))"

definition relay_get_count :: nat where
  "relay_get_count = RELAY_COUNT"

text \<open>The body of the loop of \<open>relay_all_off\<close> and \<open>relay_all_on\<close>.\<close>

definition all_step :: "relay_state_t \<Rightarrow> nat \<Rightarrow> sys \<Rightarrow> sys" where
  "all_step st i s = apply_gpio_state i (set_relay i st s)"

definition relay_all_off :: "sys \<Rightarrow> esp_err_t \<times> sys" where
  "relay_all_off s = (ESP_OK, save_if_persist (fold (all_step RELAY_OFF) [0..<RELAY_COUNT] s))"

definition relay_all_on :: "sys \<Rightarrow> esp_err_t \<times> sys" where
  "relay_all_on s = (ESP_OK, save_if_persist (fold (all_step RELAY_ON) [0..<RELAY_COUNT] s))"

subsection \<open>Start-up\<close>

text \<open>
  The first loop of \<open>relay_service_init\<close>; it returns from inside the loop when
  \<open>gpio_config\<close> fails.
\<close>

fun init_gpio_loop :: "nat list \<Rightarrow> sys \<Rightarrow> esp_err_t \<times> sys" where
  "init_gpio_loop [] s = (ESP_OK, s)"
| "init_gpio_loop (i # rest) s =
     (let s1 = gpio_set_level (gpio_pin (relays s ! i)) 1 s;
          (ret, s2) = gpio_config (gpio_pin (relays s1 ! i)) s1
      in if ret \<noteq> ESP_OK then (ret, s2)
         else init_gpio_loop rest (gpio_set_level (gpio_pin (relays s2 ! i)) 1 s2))"

definition relay_service_init :: "sys \<Rightarrow> esp_err_t \<times> sys" where
  "relay_service_init s =
     (let s1 = init_led s;
          (ret, s2) = init_gpio_loop [0..<RELAY_COUNT] s1
      in if ret \<noteq> ESP_OK then (ret, s2)
         else let s3 = (if RELAY_PERSIST_STATE then snd (relay_load_states s2) else s2)
              in (ESP_OK, fold apply_gpio_state [0..<RELAY_COUNT] s3))"

text \<open>
  The states the service can be in when a command arrives: \<open>app_main\<close> stops unless
  \<open>relay_service_init\<close> returned \<open>ESP_OK\<close>, and afterwards the HTTP handlers call the
  four mutating commands in any order (\<open>relay_get_state\<close> and \<open>relay_get_info\<close> only read).
  \<open>relay_load_states\<close> and \<open>relay_save_states\<close> are called from within these only.
  Between commands the store may become faulty or healthy again.
\<close>

inductive reachable :: "sys \<Rightarrow> bool" where
  after_init: "relay_service_init (power_on p) = (ESP_OK, s) \<Longrightarrow> reachable s"
| after_toggle: "reachable s \<Longrightarrow> reachable (snd (relay_toggle period ticks relay_id s))"
| after_set_state: "reachable s \<Longrightarrow> reachable (snd (relay_set_state relay_id st s))"
| after_all_off: "reachable s \<Longrightarrow> reachable (snd (relay_all_off s))"
| after_all_on: "reachable s \<Longrightarrow> reachable (snd (relay_all_on s))"
| store_fault: "reachable s \<Longrightarrow>
    reachable (s\<lparr>nvs_open_fault := e1, nvs_set_fault := e2, nvs_commit_fault := e3,
                 nvs_get_fault := e4\<rparr>)"

text \<open>
  The states the service can be in when no toggle of relay \<open>i\<close> has been accepted since
  power-on: start-up, then any commands other than an accepted toggle of relay \<open>i\<close>
  (toggles of other relays, toggles of relay \<open>i\<close> that \<open>debounce_check\<close> rejects, explicit
  and bulk on and off).
\<close>

inductive untoggled :: "nat \<Rightarrow> sys \<Rightarrow> bool" for i :: nat where
  fresh: "relay_service_init (power_on p) = (ESP_OK, s) \<Longrightarrow> untoggled i s"
| other_toggle: "untoggled i s \<Longrightarrow> relay_id \<noteq> i \<Longrightarrow>
    untoggled i (snd (relay_toggle period ticks relay_id s))"
| rejected_toggle: "untoggled i s \<Longrightarrow> \<not> fst (debounce_check period ticks i s) \<Longrightarrow>
    untoggled i (snd (relay_toggle period ticks i s))"
| set_state: "untoggled i s \<Longrightarrow> untoggled i (snd (relay_set_state relay_id st s))"
| all_off: "untoggled i s \<Longrightarrow> untoggled i (snd (relay_all_off s))"
| all_on: "untoggled i s \<Longrightarrow> untoggled i (snd (relay_all_on s))"
| faults: "untoggled i s \<Longrightarrow>
    untoggled i (s\<lparr>nvs_open_fault := e1, nvs_set_fault := e2, nvs_commit_fault := e3,
                   nvs_get_fault := e4\<rparr>)"

section \<open>http_controller.c\<close>

subsection \<open>C library functions used by the parser\<close>

text \<open>
  \<open>strstr\<close>: the suffix of the haystack that starts at the first occurrence of the
  needle, or nothing (the null pointer of C). Strings are the bytes before the
  terminating NUL.
\<close>

fun strstr :: "string \<Rightarrow> string \<Rightarrow> string option" where
  "strstr [] needle = (if needle = [] then Some [] else None)"
| "strstr (c # cs) needle =
     (if take (length needle) (c # cs) = needle then Some (c # cs) else strstr cs needle)"

text \<open>\<open>strncmp(a, b, n) == 0\<close>: the strings agree on their first \<open>n\<close> bytes.\<close>

definition strncmp_eq :: "string \<Rightarrow> string \<Rightarrow> nat \<Rightarrow> bool" where
  "strncmp_eq a b n = (take n a = take n b)"

definition isspace :: "char \<Rightarrow> bool" where
  "isspace c = ((of_char c :: nat) = 32 \<or> (9 \<le> (of_char c :: nat) \<and> (of_char c :: nat) \<le> 13))"

definition isdigit :: "char \<Rightarrow> bool" where
  "isdigit c = (48 \<le> (of_char c :: nat) \<and> (of_char c :: nat) \<le> 57)"

fun atoi_digits :: "int \<Rightarrow> string \<Rightarrow> int" where
  "atoi_digits acc [] = acc"
| "atoi_digits acc (c # cs) =
     (if isdigit c then atoi_digits (acc * 10 + (int (of_char c) - 48)) cs else acc)"

text \<open>The result of \<open>strtol\<close> on a 32-bit \<open>long\<close>: out-of-range values saturate.\<close>

definition saturate_long :: "int \<Rightarrow> int" where
  "saturate_long v = (if v > 2147483647 then 2147483647 else if v < - 2147483648 then - 2147483648 else v)"

text \<open>
  \<open>atoi\<close>: skip white space, read an optional sign and the longest run of decimal
  digits; no digits give 0.
\<close>

definition atoi :: "string \<Rightarrow> int" where
  "atoi str =
     (case dropWhile isspace str of
        [] \<Rightarrow> 0
      | c # cs \<Rightarrow>
          if c = CHR ''-'' then saturate_long (- atoi_digits 0 cs)
          else if c = CHR ''+'' then saturate_long (atoi_digits 0 cs)
          else saturate_long (atoi_digits 0 (c # cs)))"

subsection \<open>Helper functions\<close>

definition extract_relay_id :: "string \<Rightarrow> int" where
  "extract_relay_id uri =
     (case strstr uri ''/relay/'' of
        None \<Rightarrow> -1
      | Some p0 \<Rightarrow>
          let p = drop 7 p0 in
          if strncmp_eq p ''all'' 3 then -2
          else let id = atoi p in
            if id < 0 \<or> id \<ge> int RELAY_COUNT then -1 else id)"

subsection \<open>Route handlers\<close>

text \<open>
  What a handler sends: the JSON templates of ui_templates.h with their arguments, and
  the status line when the handler sets one.
\<close>

datatype http_reply =
    Relay_status int string int
  | All_status "(nat \<times> string \<times> int) list"
  | Success_message string
  | Bad_request string
  | Not_found string

text \<open>
  The handlers pass the parsed \<open>int\<close> to parameters of type \<open>uint8_t\<close>; they do so only
  for values from 0 to \<open>RELAY_COUNT - 1\<close>, where the conversion changes nothing.
\<close>

definition handler_toggle :: "32 word \<Rightarrow> 32 word \<Rightarrow> string \<Rightarrow> sys \<Rightarrow> http_reply \<times> sys" where
  "handler_toggle period ticks uri s =
     (let relay_id = extract_relay_id uri in
      if relay_id < 0 then (Bad_request ''Invalid relay ID'', s)
      else let (new_state, s1) = relay_toggle period ticks (nat relay_id) s in
        case relay_get_info (nat relay_id) s1 of
          None \<Rightarrow> (Not_found ''Relay not found'', s1)
        | Some info \<Rightarrow> (Relay_status relay_id (name info) new_state, s1))"

text \<open>
  The loop of \<open>handler_status\<close> over all relays; \<open>relay_get_info\<close> cannot fail in it,
  the index being below \<open>RELAY_COUNT\<close>.
\<close>

definition status_entry :: "sys \<Rightarrow> nat \<Rightarrow> (nat \<times> string \<times> int) list" where
  "status_entry s i =
     (case relay_get_info i s of
        None \<Rightarrow> []
      | Some info \<Rightarrow> [(i, name info, state_int (state info))])"

definition handler_status :: "string \<Rightarrow> sys \<Rightarrow> http_reply" where
  "handler_status uri s =
     (let relay_id = extract_relay_id uri in
      if relay_id = -2 then All_status (concat (map (status_entry s) [0..<RELAY_COUNT]))
      else if relay_id < 0 then Bad_request ''Invalid relay ID''
      else case relay_get_info (nat relay_id) s of
          None \<Rightarrow> Not_found ''Relay not found''
        | Some info \<Rightarrow> Relay_status relay_id (name info) (state_int (state info)))"

definition handler_on :: "string \<Rightarrow> sys \<Rightarrow> http_reply \<times> sys" where
  "handler_on uri s =
     (let relay_id = extract_relay_id uri in
      if relay_id = -2 then (Success_message ''All relays ON'', snd (relay_all_on s))
      else if relay_id < 0 then (Bad_request ''Invalid relay ID'', s)
      else let s1 = snd (relay_set_state (nat relay_id) RELAY_ON s) in
        case relay_get_info (nat relay_id) s1 of
          None \<Rightarrow> (Not_found ''Relay not found'', s1)
        | Some info \<Rightarrow> (Relay_status relay_id (name info) (state_int RELAY_ON), s1))"

definition handler_off :: "string \<Rightarrow> sys \<Rightarrow> http_reply \<times> sys" where
  "handler_off uri s =
     (let relay_id = extract_relay_id uri in
      if relay_id = -2 then (Success_message ''All relays OFF'', snd (relay_all_off s))
      else if relay_id < 0 then (Bad_request ''Invalid relay ID'', s)
      else let s1 = snd (relay_set_state (nat relay_id) RELAY_OFF s) in
        case relay_get_info (nat relay_id) s1 of
          None \<Rightarrow> (Not_found ''Relay not found'', s1)
        | Some info \<Rightarrow> (Relay_status relay_id (name info) (state_int RELAY_OFF), s1))"

section \<open>Observations and concrete states used in the statements\<close>

definition nvs_healthy :: "sys \<Rightarrow> bool" where
  "nvs_healthy s \<longleftrightarrow>
     nvs_open_fault s = ESP_OK \<and> nvs_set_fault s = ESP_OK \<and>
     nvs_commit_fault s = ESP_OK \<and> nvs_get_fault s = ESP_OK"

text \<open>The snapshot byte under the fixed key of the fixed namespace, if there is one.\<close>

definition stored_snapshot :: "sys \<Rightarrow> 8 word option" where
  "stored_snapshot s =
     (case nvs_store s NVS_NAMESPACE of None \<Rightarrow> None | Some entries \<Rightarrow> entries NVS_KEY_RELAY_STATE)"

text \<open>
  Relay \<open>i\<close>'s line has been driven, and the level last driven on it is the one the
  polarity constant gives for the relay's logical state.
\<close>

definition line_matches :: "sys \<Rightarrow> nat \<Rightarrow> bool" where
  "line_matches s i =
     (gpio_level s (gpio_pin (relays s ! i)) =
        Some (if RELAY_ACTIVE_LOW
              then (if state (relays s ! i) = RELAY_ON then 0 else 1)
              else (if state (relays s ! i) = RELAY_ON then 1 else 0)))"

definition lines_consistent :: "sys \<Rightarrow> bool" where
  "lines_consistent s = (\<forall>i \<in> {0..<RELAY_COUNT}. line_matches s i)"

text \<open>The immutable part of the relay table and the size of the ledger.\<close>

definition table_intact :: "sys \<Rightarrow> bool" where
  "table_intact s \<longleftrightarrow>
     map gpio_pin (relays s) = map gpio_pin relays_initial \<and>
     map name (relays s) = map name relays_initial \<and>
     length (last_toggle_time s) = RELAY_COUNT"

text \<open>
  The bulk command for a state: \<open>handler_on\<close> calls \<open>relay_all_on\<close> and \<open>handler_off\<close>
  calls \<open>relay_all_off\<close> for the target \<open>all\<close>.
\<close>

definition relay_all :: "relay_state_t \<Rightarrow> sys \<Rightarrow> esp_err_t \<times> sys" where
  "relay_all st s = (case st of RELAY_ON \<Rightarrow> relay_all_on s | RELAY_OFF \<Rightarrow> relay_all_off s)"

text \<open>The calls of one status-indicator pulse, and the calls that write to the store.\<close>

definition led_pulse :: "platform_call list" where
  "led_pulse =
     [Gpio_set_level LED_BUILTIN_GPIO 1, TaskDelay_ms LED_BLINK_ON_MS,
      Gpio_set_level LED_BUILTIN_GPIO 0]"

fun is_nvs_write :: "platform_call \<Rightarrow> bool" where
  "is_nvs_write (Nvs_set_u8 k v) = True"
| "is_nvs_write c = False"

text \<open>A board with a healthy, empty store, used for the concrete instances below.\<close>

definition blank_board :: sys where
  "blank_board =
     \<lparr>relays = [], last_toggle_time = [], led_initialized = False,
      gpio_level = (\<lambda>pin. None), gpio_config_ret = (\<lambda>pin. ESP_OK),
      nvs_store = (\<lambda>ns. None), nvs_open_fault = ESP_OK, nvs_set_fault = ESP_OK,
      nvs_commit_fault = ESP_OK, nvs_get_fault = ESP_OK, calls = []\<rparr>"

definition booted :: sys where
  "booted = snd (relay_service_init (power_on blank_board))"

text \<open>The same board with a stored snapshot in which relay 0 is on.\<close>

definition saved_board :: sys where
  "saved_board = blank_board\<lparr>nvs_store := [NVS_NAMESPACE \<mapsto> [NVS_KEY_RELAY_STATE \<mapsto> 1]]\<rparr>"

section \<open>Verification\<close>

subsection \<open>Evaluation helpers\<close>

lemmas platform_defs =
  gpio_config_def gpio_set_level_def vTaskDelay_ms_def nvs_open_def nvs_set_u8_def
  nvs_get_u8_def nvs_commit_def nvs_close_def

lemmas parser_defs =
  extract_relay_id_def strncmp_eq_def atoi_def isspace_def isdigit_def saturate_long_def
  RELAY_COUNT_def

lemma upt_RELAY_COUNT: "[0..<RELAY_COUNT] = [0, 1, 2, 3]"
  by (simp add: RELAY_COUNT_def upt_rec)

lemma upt_4: "[0..<4] = [0, 1, 2, 3::nat]"
  by (simp add: upt_rec)

lemma replicate_4: "replicate 4 x = [x, x, x, x]"
  by (simp add: numeral_eq_Suc)

lemma state_int_cases: "state_int st = 0 \<or> state_int st = 1"
  by (cases st) simp_all

lemma length_RELAY_COUNT_E:
  assumes "length xs = RELAY_COUNT"
  obtains a b c d where "xs = [a, b, c, d]"
  using assms by (auto simp: RELAY_COUNT_def numeral_eq_Suc length_Suc_conv)

lemma length_relays_initial: "length relays_initial = RELAY_COUNT"
  by (simp add: relays_initial_def RELAY_COUNT_def)

lemma power_on_fields [simp]:
  "relays (power_on p) = relays_initial"
  "last_toggle_time (power_on p) = replicate RELAY_COUNT 0"
  "led_initialized (power_on p) = False"
  "gpio_level (power_on p) = (\<lambda>pin. None)"
  "gpio_config_ret (power_on p) = gpio_config_ret p"
  "nvs_store (power_on p) = nvs_store p"
  "nvs_open_fault (power_on p) = nvs_open_fault p"
  "nvs_set_fault (power_on p) = nvs_set_fault p"
  "nvs_commit_fault (power_on p) = nvs_commit_fault p"
  "nvs_get_fault (power_on p) = nvs_get_fault p"
  "calls (power_on p) = []"
  by (simp_all add: power_on_def)

lemma power_on_blank:
  "relays (power_on blank_board) = relays_initial"
  "last_toggle_time (power_on blank_board) = [0, 0, 0, 0]"
  "led_initialized (power_on blank_board) = False"
  "calls (power_on blank_board) = []"
  "nvs_healthy (power_on blank_board)"
  "nvs_store (power_on blank_board) = (\<lambda>ns. None)"
  by (simp_all add: power_on_def blank_board_def RELAY_COUNT_def replicate_4 nvs_healthy_def)

lemma blank_board_healthy:
  "nvs_open_fault blank_board = ESP_OK" "nvs_set_fault blank_board = ESP_OK"
  "nvs_commit_fault blank_board = ESP_OK" "nvs_get_fault blank_board = ESP_OK"
  by (simp_all add: blank_board_def)

lemma stored_snapshot_blank: "stored_snapshot blank_board = None"
  by (simp add: stored_snapshot_def blank_board_def)

subsection \<open>Effects of the private functions\<close>

lemma blink_led_eq:
  "blink_led s =
     (if led_initialized s
      then s\<lparr>gpio_level := (gpio_level s)(LED_BUILTIN_GPIO \<mapsto> 0), calls := calls s @ led_pulse\<rparr>
      else s)"
  by (simp add: blink_led_def blink_once_def LED_BLINK_COUNT_def led_pulse_def
      gpio_set_level_def vTaskDelay_ms_def Let_def)

lemma blink_led_fields [simp]:
  "relays (blink_led s) = relays s"
  "last_toggle_time (blink_led s) = last_toggle_time s"
  "led_initialized (blink_led s) = led_initialized s"
  "gpio_config_ret (blink_led s) = gpio_config_ret s"
  "nvs_store (blink_led s) = nvs_store s"
  "nvs_open_fault (blink_led s) = nvs_open_fault s"
  "nvs_set_fault (blink_led s) = nvs_set_fault s"
  "nvs_commit_fault (blink_led s) = nvs_commit_fault s"
  "nvs_get_fault (blink_led s) = nvs_get_fault s"
  by (simp_all add: blink_led_eq)

lemma apply_gpio_state_eq:
  "relay_id < RELAY_COUNT \<Longrightarrow>
   apply_gpio_state relay_id s =
     s\<lparr>gpio_level := (gpio_level s)(gpio_pin (relays s ! relay_id) \<mapsto>
          (if state (relays s ! relay_id) = RELAY_ON then 0 else 1)),
       calls := calls s @ [Gpio_set_level (gpio_pin (relays s ! relay_id))
          (if state (relays s ! relay_id) = RELAY_ON then 0 else 1)]\<rparr>"
  by (simp add: apply_gpio_state_def RELAY_ACTIVE_LOW_def gpio_set_level_def)

lemma apply_gpio_state_fields [simp]:
  "relays (apply_gpio_state i s) = relays s"
  "last_toggle_time (apply_gpio_state i s) = last_toggle_time s"
  "led_initialized (apply_gpio_state i s) = led_initialized s"
  "gpio_config_ret (apply_gpio_state i s) = gpio_config_ret s"
  "nvs_store (apply_gpio_state i s) = nvs_store s"
  "nvs_open_fault (apply_gpio_state i s) = nvs_open_fault s"
  "nvs_set_fault (apply_gpio_state i s) = nvs_set_fault s"
  "nvs_commit_fault (apply_gpio_state i s) = nvs_commit_fault s"
  "nvs_get_fault (apply_gpio_state i s) = nvs_get_fault s"
  by (simp_all add: apply_gpio_state_def gpio_set_level_def Let_def)

lemma set_relay_fields [simp]:
  "relays (set_relay i st s) = (relays s)[i := (relays s ! i)\<lparr>state := st\<rparr>]"
  "last_toggle_time (set_relay i st s) = last_toggle_time s"
  "led_initialized (set_relay i st s) = led_initialized s"
  "gpio_level (set_relay i st s) = gpio_level s"
  "gpio_config_ret (set_relay i st s) = gpio_config_ret s"
  "nvs_store (set_relay i st s) = nvs_store s"
  "nvs_open_fault (set_relay i st s) = nvs_open_fault s"
  "nvs_set_fault (set_relay i st s) = nvs_set_fault s"
  "nvs_commit_fault (set_relay i st s) = nvs_commit_fault s"
  "nvs_get_fault (set_relay i st s) = nvs_get_fault s"
  "calls (set_relay i st s) = calls s"
  by (simp_all add: set_relay_def)

subsection \<open>Effects of saving\<close>

lemma save_fields [simp]:
  "relays (snd (relay_save_states s)) = relays s"
  "last_toggle_time (snd (relay_save_states s)) = last_toggle_time s"
  "led_initialized (snd (relay_save_states s)) = led_initialized s"
  "gpio_level (snd (relay_save_states s)) = gpio_level s"
  "gpio_config_ret (snd (relay_save_states s)) = gpio_config_ret s"
  "nvs_open_fault (snd (relay_save_states s)) = nvs_open_fault s"
  "nvs_set_fault (snd (relay_save_states s)) = nvs_set_fault s"
  "nvs_commit_fault (snd (relay_save_states s)) = nvs_commit_fault s"
  "nvs_get_fault (snd (relay_save_states s)) = nvs_get_fault s"
  by (simp_all add: relay_save_states_def platform_defs Let_def split: option.splits)

lemma save_calls:
  "calls (snd (relay_save_states s)) = calls s @
     Nvs_open NVS_NAMESPACE NVS_READWRITE #
     (if nvs_open_fault s \<noteq> ESP_OK then []
      else Nvs_set_u8 NVS_KEY_RELAY_STATE (pack_states (relays s)) #
        (if nvs_set_fault s \<noteq> ESP_OK then [Nvs_close] else [Nvs_commit, Nvs_close]))"
  by (simp add: relay_save_states_def platform_defs Let_def split: option.splits)

lemma save_healthy:
  assumes "nvs_healthy s"
  shows "fst (relay_save_states s) = ESP_OK"
    and "stored_snapshot (snd (relay_save_states s)) = Some (pack_states (relays s))"
  using assms
  by (simp_all add: nvs_healthy_def stored_snapshot_def relay_save_states_def platform_defs
      Let_def split: option.splits)

lemma save_if_persist_eq: "save_if_persist s = snd (relay_save_states s)"
  by (simp add: save_if_persist_def RELAY_PERSIST_STATE_def)

subsection \<open>Toggle and the debounce window\<close>

lemma toggle_accepted_eq:
  assumes "relay_id < RELAY_COUNT"
    and "RELAY_DEBOUNCE_MS \<le> ticks * period - last_toggle_time s ! relay_id"
  shows "relay_toggle period ticks relay_id s =
    (let s1 = s\<lparr>last_toggle_time := (last_toggle_time s)[relay_id := ticks * period]\<rparr>;
         s5 = save_if_persist (blink_led (apply_gpio_state relay_id
                (set_relay relay_id (toggled (state (relays s ! relay_id))) s1)))
     in (state_int (state (relays s5 ! relay_id)), s5))"
  using assms by (simp add: relay_toggle_def debounce_check_def Let_def not_less [symmetric])

text \<open>
  Claim C1. For a valid relay index, a toggle that arrives while fewer than
  \<open>RELAY_DEBOUNCE_MS\<close> milliseconds (in the 32-bit tick arithmetic of the code) separate
  the current time from the ledger entry of that relay changes nothing at all: the whole
  system state, with every relay, every ledger entry and the platform, is returned as it
  was, and the result is the relay's current state, never the error value \<open>-1\<close>.
\<close>

theorem toggle_within_debounce_window:
  assumes "relay_id < RELAY_COUNT"
    and "ticks * period - last_toggle_time s ! relay_id < RELAY_DEBOUNCE_MS"
  shows "relay_toggle period ticks relay_id s = (state_int (state (relays s ! relay_id)), s)
     \<and> fst (relay_toggle period ticks relay_id s) \<noteq> -1"
proof -
  have rej: "debounce_check period ticks relay_id s = (False, s)"
    using assms(2) by (simp add: debounce_check_def)
  have res: "relay_toggle period ticks relay_id s = (state_int (state (relays s ! relay_id)), s)"
    using assms(1) rej by (simp add: relay_toggle_def)
  moreover have "state_int (state (relays s ! relay_id)) \<noteq> -1"
    using state_int_cases [of "state (relays s ! relay_id)"] by auto
  ultimately show ?thesis by simp
qed

theorem toggle_within_debounce_window_witness:
  "(0::nat) < RELAY_COUNT
   \<and> 102 * 10 - last_toggle_time ((power_on blank_board)\<lparr>last_toggle_time := [1000, 0, 0, 0]\<rparr>) ! 0
        < RELAY_DEBOUNCE_MS
   \<and> relay_toggle 10 102 0 ((power_on blank_board)\<lparr>last_toggle_time := [1000, 0, 0, 0]\<rparr>)
        = (0, (power_on blank_board)\<lparr>last_toggle_time := [1000, 0, 0, 0]\<rparr>)"
proof -
  let ?s = "(power_on blank_board)\<lparr>last_toggle_time := [1000, 0, 0, 0]\<rparr>"
  have h1: "(0::nat) < RELAY_COUNT" by (simp add: RELAY_COUNT_def)
  have h2: "102 * 10 - last_toggle_time ?s ! 0 < RELAY_DEBOUNCE_MS"
    by (simp add: RELAY_DEBOUNCE_MS_def)
  have "state_int (state (relays ?s ! 0)) = 0"
    by (simp add: power_on_blank relays_initial_def RELAY_DEFAULT_STATE_def)
  with toggle_within_debounce_window [OF h1 h2] h1 h2 show ?thesis by simp
qed

text \<open>
  Claim C2, amended. The elapsed time is the one the code measures: the current tick-time
  minus the relay's ledger entry, in milliseconds modulo \<open>2 ^ 32\<close>. For a valid relay index,
  a toggle that arrives when this difference is at least \<open>RELAY_DEBOUNCE_MS\<close> flips the
  relay's state and returns the new state, records the current tick-time in the relay's
  ledger entry, leaves the other relays and ledger entries alone, drives the relay's line
  (the first platform call it makes) and then opens the store for writing; on a healthy
  store exactly one byte is written and the stored snapshot is the packed new states.
\<close>

theorem toggle_after_debounce_window:
  assumes "relay_id < RELAY_COUNT"
    and "length (relays s) = RELAY_COUNT"
    and "length (last_toggle_time s) = RELAY_COUNT"
    and "RELAY_DEBOUNCE_MS \<le> ticks * period - last_toggle_time s ! relay_id"
  shows "(let old = state (relays s ! relay_id);
              new = (if old = RELAY_ON then RELAY_OFF else RELAY_ON);
              lvl = (if new = RELAY_ON then 0 else 1);
              (r, s') = relay_toggle period ticks relay_id s
          in r = state_int new
           \<and> state (relays s' ! relay_id) = new
           \<and> (\<forall>j. j \<noteq> relay_id \<longrightarrow> relays s' ! j = relays s ! j)
           \<and> last_toggle_time s' ! relay_id = ticks * period
           \<and> (\<forall>j. j \<noteq> relay_id \<longrightarrow> last_toggle_time s' ! j = last_toggle_time s ! j)
           \<and> (\<exists>rest. calls s' = calls s @ Gpio_set_level (gpio_pin (relays s ! relay_id)) lvl # rest
                 \<and> Nvs_open NVS_NAMESPACE NVS_READWRITE \<in> set rest)
           \<and> (nvs_healthy s \<longrightarrow> stored_snapshot s' = Some (pack_states (relays s'))
                 \<and> length (filter is_nvs_write (calls s')) = Suc (length (filter is_nvs_write (calls s)))))"
proof -
  define s1 where "s1 = s\<lparr>last_toggle_time := (last_toggle_time s)[relay_id := ticks * period]\<rparr>"
  define new where "new = toggled (state (relays s ! relay_id))"
  define s4 where "s4 = blink_led (apply_gpio_state relay_id (set_relay relay_id new s1))"
  define s5 where "s5 = snd (relay_save_states s4)"
  have run: "relay_toggle period ticks relay_id s = (state_int (state (relays s5 ! relay_id)), s5)"
    using toggle_accepted_eq [OF assms(1) assms(4)]
    by (simp add: s5_def s4_def s1_def new_def save_if_persist_eq Let_def)
  have rel: "relays s5 = (relays s)[relay_id := (relays s ! relay_id)\<lparr>state := new\<rparr>]"
    by (simp add: s5_def s4_def s1_def)
  have led: "last_toggle_time s5 = (last_toggle_time s)[relay_id := ticks * period]"
    by (simp add: s5_def s4_def s1_def)
  have st: "state (relays s5 ! relay_id) = new"
    using assms(1,2) by (simp add: rel)
  have c4: "calls s4 = calls s @ Gpio_set_level (gpio_pin (relays s ! relay_id))
      (if new = RELAY_ON then 0 else 1) # (if led_initialized s then led_pulse else [])"
    using assms(1,2)
    by (simp add: s4_def s1_def blink_led_eq apply_gpio_state_eq)
  have c5: "\<exists>rest. calls s5 = calls s @ Gpio_set_level (gpio_pin (relays s ! relay_id))
      (if new = RELAY_ON then 0 else 1) # rest \<and> Nvs_open NVS_NAMESPACE NVS_READWRITE \<in> set rest"
    by (simp add: s5_def save_calls c4)
  have faults: "nvs_healthy s4 = nvs_healthy s"
    by (simp add: nvs_healthy_def s4_def s1_def)
  have snap: "nvs_healthy s \<Longrightarrow> stored_snapshot s5 = Some (pack_states (relays s5))"
    using save_healthy(2) [of s4] faults by (simp add: s5_def)
  have f4: "nvs_open_fault s4 = nvs_open_fault s" "nvs_set_fault s4 = nvs_set_fault s"
    by (simp_all add: s4_def s1_def)
  have cnt: "nvs_healthy s \<Longrightarrow>
      length (filter is_nvs_write (calls s5)) = Suc (length (filter is_nvs_write (calls s)))"
    by (simp add: s5_def save_calls c4 f4 nvs_healthy_def led_pulse_def)
  have new_alt: "new = (if state (relays s ! relay_id) = RELAY_ON then RELAY_OFF else RELAY_ON)"
    by (simp add: new_def toggled_def)
  show ?thesis
    unfolding Let_def run new_alt [symmetric] prod.case
    using st rel led c5 snap cnt assms(1,3) by simp
qed

theorem toggle_after_debounce_window_witness:
  "(2::nat) < RELAY_COUNT
   \<and> length (relays (power_on blank_board)) = RELAY_COUNT
   \<and> length (last_toggle_time (power_on blank_board)) = RELAY_COUNT
   \<and> RELAY_DEBOUNCE_MS \<le> 5 * 10 - last_toggle_time (power_on blank_board) ! 2
   \<and> nvs_healthy (power_on blank_board)
   \<and> state (relays (power_on blank_board) ! 2) = RELAY_OFF
   \<and> fst (relay_toggle 10 5 2 (power_on blank_board)) = 1
   \<and> state (relays (snd (relay_toggle 10 5 2 (power_on blank_board))) ! 2) = RELAY_ON
   \<and> relays (snd (relay_toggle 10 5 2 (power_on blank_board))) ! 1 = relays (power_on blank_board) ! 1
   \<and> last_toggle_time (snd (relay_toggle 10 5 2 (power_on blank_board))) ! 2 = 50
   \<and> stored_snapshot (snd (relay_toggle 10 5 2 (power_on blank_board)))
        = Some (pack_states (relays (snd (relay_toggle 10 5 2 (power_on blank_board)))))"
proof -
  let ?s = "power_on blank_board"
  have h1: "(2::nat) < RELAY_COUNT" by (simp add: RELAY_COUNT_def)
  have h2: "length (relays ?s) = RELAY_COUNT"
    by (simp add: power_on_blank relays_initial_def RELAY_COUNT_def)
  have h3: "length (last_toggle_time ?s) = RELAY_COUNT"
    by (simp add: power_on_blank RELAY_COUNT_def)
  have h4: "RELAY_DEBOUNCE_MS \<le> 5 * 10 - last_toggle_time ?s ! 2"
    by (simp add: RELAY_COUNT_def replicate_4 RELAY_DEBOUNCE_MS_def)
  have h5: "nvs_healthy ?s" by (rule power_on_blank)
  have old: "state (relays ?s ! 2) = RELAY_OFF"
    by (simp add: power_on_blank relays_initial_def RELAY_DEFAULT_STATE_def)
  from toggle_after_debounce_window [OF h1 h2 h3 h4] h1 h2 h3 h4 h5 old
  show ?thesis by (simp add: Let_def split_beta)
qed

text \<open>
  The ledger entry is the time of the last accepted toggle: a toggle that follows an
  accepted one by less than the window is rejected and returns what the accepted one
  returned, with the state as the accepted one left it.
\<close>

lemma second_toggle_without_delay:
  assumes "relay_id < RELAY_COUNT"
    and "length (last_toggle_time s) = RELAY_COUNT"
    and "RELAY_DEBOUNCE_MS \<le> t1 * period - last_toggle_time s ! relay_id"
    and "t2 * period - t1 * period < RELAY_DEBOUNCE_MS"
  shows "relay_toggle period t2 relay_id (snd (relay_toggle period t1 relay_id s)) =
           relay_toggle period t1 relay_id s"
proof -
  define s' where "s' = save_if_persist (blink_led (apply_gpio_state relay_id
      (set_relay relay_id (toggled (state (relays s ! relay_id)))
        (s\<lparr>last_toggle_time := (last_toggle_time s)[relay_id := t1 * period]\<rparr>))))"
  have first: "relay_toggle period t1 relay_id s = (state_int (state (relays s' ! relay_id)), s')"
    unfolding toggle_accepted_eq [OF assms(1) assms(3)] s'_def Let_def by (rule refl)
  have "last_toggle_time s' = (last_toggle_time s)[relay_id := t1 * period]"
    by (simp add: s'_def save_if_persist_eq)
  then have "last_toggle_time s' ! relay_id = t1 * period"
    using assms(1,2) by simp
  then have "debounce_check period t2 relay_id s' = (False, s')"
    using assms(4) by (simp add: debounce_check_def)
  then have "relay_toggle period t2 relay_id s' = (state_int (state (relays s' ! relay_id)), s')"
    using assms(1) by (simp add: relay_toggle_def)
  then show ?thesis
    unfolding first by simp
qed

subsection \<open>Invalid targets\<close>

text \<open>
  Claim C5. For an index \<open>i \<ge> RELAY_COUNT\<close>, toggle and get-state return the error
  value \<open>-1\<close>, set-state returns \<open>ESP_ERR_INVALID_ARG\<close> and \<open>relay_get_info\<close> returns
  no relay; the system state is returned unchanged, so no relay state, no ledger entry
  and no platform call (hence no persistence write) is affected.
\<close>

theorem invalid_target_rejected:
  assumes "relay_id \<ge> RELAY_COUNT"
  shows "relay_toggle period ticks relay_id s = (-1, s)
     \<and> relay_set_state relay_id st s = (ESP_ERR_INVALID_ARG, s)
     \<and> relay_get_state relay_id s = -1
     \<and> relay_get_info relay_id s = None"
  using assms
  by (simp add: relay_toggle_def relay_set_state_def relay_get_state_def relay_get_info_def)

theorem invalid_target_rejected_witness:
  "RELAY_COUNT \<le> 5
   \<and> relay_toggle 10 102 5 (power_on blank_board) = (-1, power_on blank_board)
   \<and> relay_set_state 5 RELAY_ON (power_on blank_board) = (ESP_ERR_INVALID_ARG, power_on blank_board)
   \<and> relay_get_state 5 (power_on blank_board) = -1"
proof -
  have h: "RELAY_COUNT \<le> 5" by (simp add: RELAY_COUNT_def)
  from invalid_target_rejected [OF h, of 10 102 "power_on blank_board" RELAY_ON] h
  show ?thesis by simp
qed

subsection \<open>Explicit on and off\<close>

lemma set_state_eq:
  assumes "relay_id < RELAY_COUNT"
  shows "relay_set_state relay_id st s =
    (ESP_OK, snd (relay_save_states (blink_led (apply_gpio_state relay_id (set_relay relay_id st s)))))"
  using assms by (simp add: relay_set_state_def save_if_persist_eq Let_def)

lemma snd_save_ledger_update:
  "snd (relay_save_states (s\<lparr>last_toggle_time := l\<rparr>)) = (snd (relay_save_states s))\<lparr>last_toggle_time := l\<rparr>"
  by (simp add: relay_save_states_def platform_defs Let_def split: option.splits)

lemma blink_led_ledger_update:
  "blink_led (s\<lparr>last_toggle_time := l\<rparr>) = (blink_led s)\<lparr>last_toggle_time := l\<rparr>"
  by (simp add: blink_led_eq)

lemma apply_gpio_state_ledger_update:
  "apply_gpio_state i (s\<lparr>last_toggle_time := l\<rparr>) = (apply_gpio_state i s)\<lparr>last_toggle_time := l\<rparr>"
  by (simp add: apply_gpio_state_def gpio_set_level_def Let_def)

lemma set_relay_ledger_update:
  "set_relay i st (s\<lparr>last_toggle_time := l\<rparr>) = (set_relay i st s)\<lparr>last_toggle_time := l\<rparr>"
  by (simp add: set_relay_def)

lemma handler_set_reply:
  assumes "relay_id < RELAY_COUNT" and "length (relays s) = RELAY_COUNT"
    and "extract_relay_id uri = int relay_id"
  shows "(case st of RELAY_ON \<Rightarrow> handler_on uri s | RELAY_OFF \<Rightarrow> handler_off uri s) =
     (Relay_status (int relay_id) (name (relays s ! relay_id)) (state_int st),
      snd (relay_set_state relay_id st s))"
proof -
  have "relays (snd (relay_set_state relay_id st s)) ! relay_id = (relays s ! relay_id)\<lparr>state := st\<rparr>"
    using assms(1,2) by (simp add: set_state_eq)
  then show ?thesis
    using assms(1,3)
    by (cases st) (simp_all add: handler_on_def handler_off_def relay_get_info_def Let_def)
qed

lemma extract_1_on: "extract_relay_id ''/relay/1/on'' = 1"
  by (simp add: parser_defs)

text \<open>
  Claim C3. For a valid relay index and either state \<open>st\<close>, \<open>relay_set_state\<close> succeeds
  and leaves the relay in state \<open>st\<close> whatever it was before, and a second call with the
  same \<open>st\<close> succeeds again, leaves the relay table as the first call left it and drives
  the line again: nothing is ever rejected. The debounce ledger is neither updated (it is
  the same after both calls) nor consulted (with any other ledger the call gives the same
  result and the same state). After each call \<open>relay_get_state\<close> reports \<open>st\<close>, and the on/off handler
  that makes the call answers with the relay's index, name and \<open>st\<close>.
\<close>

theorem set_state_bypasses_debounce:
  assumes "relay_id < RELAY_COUNT"
    and "length (relays s) = RELAY_COUNT"
  shows "(let (r1, s1) = relay_set_state relay_id st s;
              (r2, s2) = relay_set_state relay_id st s1;
              lvl = (if st = RELAY_ON then 0 else 1)
          in r1 = ESP_OK \<and> r2 = ESP_OK
           \<and> state (relays s1 ! relay_id) = st \<and> relay_get_state relay_id s1 = state_int st
           \<and> state (relays s2 ! relay_id) = st \<and> relay_get_state relay_id s2 = state_int st
           \<and> relays s2 = relays s1
           \<and> (\<forall>j. j \<noteq> relay_id \<longrightarrow> relays s1 ! j = relays s ! j)
           \<and> last_toggle_time s1 = last_toggle_time s \<and> last_toggle_time s2 = last_toggle_time s
           \<and> (\<forall>l. relay_set_state relay_id st (s\<lparr>last_toggle_time := l\<rparr>)
                    = (ESP_OK, s1\<lparr>last_toggle_time := l\<rparr>))
           \<and> (\<exists>rest. calls s1 = calls s @ Gpio_set_level (gpio_pin (relays s ! relay_id)) lvl # rest)
           \<and> (\<exists>rest. calls s2 = calls s1 @ Gpio_set_level (gpio_pin (relays s ! relay_id)) lvl # rest)
           \<and> (\<forall>uri. extract_relay_id uri = int relay_id \<longrightarrow>
                 fst (case st of RELAY_ON \<Rightarrow> handler_on uri s | RELAY_OFF \<Rightarrow> handler_off uri s)
                   = Relay_status (int relay_id) (name (relays s ! relay_id)) (state_int st)
               \<and> fst (case st of RELAY_ON \<Rightarrow> handler_on uri s1 | RELAY_OFF \<Rightarrow> handler_off uri s1)
                   = Relay_status (int relay_id) (name (relays s ! relay_id)) (state_int st)))"
proof -
  define run where "run = (\<lambda>s. snd (relay_save_states (blink_led (apply_gpio_state relay_id
      (set_relay relay_id st s)))))"
  have eq: "relay_set_state relay_id st t = (ESP_OK, run t)" for t
    using set_state_eq [OF assms(1)] by (simp add: run_def)
  have rel: "relays (run t) = (relays t)[relay_id := (relays t ! relay_id)\<lparr>state := st\<rparr>]" for t
    by (simp add: run_def)
  have led: "last_toggle_time (run t) = last_toggle_time t" for t
    by (simp add: run_def)
  have st1: "state (relays (run s) ! relay_id) = st"
    using assms by (simp add: rel)
  have len1: "length (relays (run s)) = RELAY_COUNT"
    using assms by (simp add: rel)
  have idem: "relays (run (run s)) = relays (run s)"
    using assms by (simp add: rel)
  have others: "j \<noteq> relay_id \<Longrightarrow> relays (run s) ! j = relays s ! j" for j
    by (simp add: rel)
  have ign: "run (s\<lparr>last_toggle_time := l\<rparr>) = (run s)\<lparr>last_toggle_time := l\<rparr>" for l
    by (simp add: run_def set_relay_ledger_update apply_gpio_state_ledger_update
        blink_led_ledger_update snd_save_ledger_update)
  have c: "length (relays t) = RELAY_COUNT \<Longrightarrow>
      \<exists>rest. calls (run t) = calls t @ Gpio_set_level (gpio_pin (relays t ! relay_id))
        (if st = RELAY_ON then 0 else 1) # rest" for t
    using assms(1) by (simp add: run_def save_calls blink_led_eq apply_gpio_state_eq)
  have pin1: "gpio_pin (relays (run s) ! relay_id) = gpio_pin (relays s ! relay_id)"
    using assms by (simp add: rel)
  have c2: "\<exists>rest. calls (run (run s)) = calls (run s) @ Gpio_set_level (gpio_pin (relays s ! relay_id))
        (if st = RELAY_ON then 0 else 1) # rest"
    using c [OF len1] by (simp add: pin1)
  have g: "relay_get_state relay_id t = state_int (state (relays t ! relay_id))" for t
    using assms(1) by (simp add: relay_get_state_def)
  have name1: "name (relays (run s) ! relay_id) = name (relays s ! relay_id)"
    using assms by (simp add: rel)
  have hr: "extract_relay_id uri = int relay_id \<Longrightarrow>
      fst (case st of RELAY_ON \<Rightarrow> handler_on uri s | RELAY_OFF \<Rightarrow> handler_off uri s)
        = Relay_status (int relay_id) (name (relays s ! relay_id)) (state_int st)
      \<and> fst (case st of RELAY_ON \<Rightarrow> handler_on uri (run s) | RELAY_OFF \<Rightarrow> handler_off uri (run s))
        = Relay_status (int relay_id) (name (relays s ! relay_id)) (state_int st)" for uri
    using handler_set_reply [OF assms(1) assms(2), of uri st]
      handler_set_reply [OF assms(1) len1, of uri st]
    by (simp add: name1)
  show ?thesis
    unfolding Let_def eq prod.case
    using st1 idem others led ign c [OF assms(2)] c2 g hr by simp
qed

theorem set_state_bypasses_debounce_witness:
  "(1::nat) < RELAY_COUNT
   \<and> length (relays (power_on blank_board)) = RELAY_COUNT
   \<and> fst (relay_set_state 1 RELAY_ON (power_on blank_board)) = ESP_OK
   \<and> relay_get_state 1 (snd (relay_set_state 1 RELAY_ON (power_on blank_board))) = 1
   \<and> fst (relay_set_state 1 RELAY_ON (snd (relay_set_state 1 RELAY_ON (power_on blank_board)))) = ESP_OK
   \<and> relay_get_state 1
        (snd (relay_set_state 1 RELAY_ON (snd (relay_set_state 1 RELAY_ON (power_on blank_board))))) = 1
   \<and> last_toggle_time
        (snd (relay_set_state 1 RELAY_ON (snd (relay_set_state 1 RELAY_ON (power_on blank_board)))))
        = last_toggle_time (power_on blank_board)
   \<and> extract_relay_id ''/relay/1/on'' = int 1
   \<and> fst (handler_on ''/relay/1/on'' (power_on blank_board)) = Relay_status 1 ''Light 2'' 1
   \<and> fst (handler_on ''/relay/1/on'' (snd (relay_set_state 1 RELAY_ON (power_on blank_board))))
        = Relay_status 1 ''Light 2'' 1"
proof -
  have h1: "(1::nat) < RELAY_COUNT" by (simp add: RELAY_COUNT_def)
  have h2: "length (relays (power_on blank_board)) = RELAY_COUNT"
    by (simp add: length_relays_initial)
  have h3: "extract_relay_id ''/relay/1/on'' = int 1"
    by (simp add: extract_1_on)
  have nm: "name (relays (power_on blank_board) ! 1) = ''Light 2''"
    by (simp add: relays_initial_def)
  from set_state_bypasses_debounce [OF h1 h2, of RELAY_ON] h1 h2 h3 nm
  show ?thesis by (simp add: Let_def split_beta)
qed

subsection \<open>Bulk commands\<close>

lemma all_step_fields [simp]:
  "last_toggle_time (all_step st i s) = last_toggle_time s"
  "led_initialized (all_step st i s) = led_initialized s"
  "gpio_config_ret (all_step st i s) = gpio_config_ret s"
  "nvs_store (all_step st i s) = nvs_store s"
  "nvs_open_fault (all_step st i s) = nvs_open_fault s"
  "nvs_set_fault (all_step st i s) = nvs_set_fault s"
  "nvs_commit_fault (all_step st i s) = nvs_commit_fault s"
  "nvs_get_fault (all_step st i s) = nvs_get_fault s"
  by (simp_all add: all_step_def)

lemma all_step_eq:
  "i < RELAY_COUNT \<Longrightarrow> i < length (relays s) \<Longrightarrow>
   relays (all_step st i s) = (relays s)[i := (relays s ! i)\<lparr>state := st\<rparr>] \<and>
   calls (all_step st i s) = calls s @
     [Gpio_set_level (gpio_pin (relays s ! i)) (if st = RELAY_ON then 0 else 1)]"
  by (simp add: all_step_def apply_gpio_state_eq)

lemma all_loop_fields [simp]:
  "last_toggle_time (fold (all_step st) is s) = last_toggle_time s"
  "led_initialized (fold (all_step st) is s) = led_initialized s"
  "gpio_config_ret (fold (all_step st) is s) = gpio_config_ret s"
  "nvs_store (fold (all_step st) is s) = nvs_store s"
  "nvs_open_fault (fold (all_step st) is s) = nvs_open_fault s"
  "nvs_set_fault (fold (all_step st) is s) = nvs_set_fault s"
  "nvs_commit_fault (fold (all_step st) is s) = nvs_commit_fault s"
  "nvs_get_fault (fold (all_step st) is s) = nvs_get_fault s"
  by (induction "is" arbitrary: s; simp)+

lemma all_loop_eq:
  assumes "relays s = [a, b, c, d]"
  shows "relays (fold (all_step st) [0..<RELAY_COUNT] s) =
           [a\<lparr>state := st\<rparr>, b\<lparr>state := st\<rparr>, c\<lparr>state := st\<rparr>, d\<lparr>state := st\<rparr>]"
    and "calls (fold (all_step st) [0..<RELAY_COUNT] s) = calls s @
           [Gpio_set_level (gpio_pin a) (if st = RELAY_ON then 0 else 1),
            Gpio_set_level (gpio_pin b) (if st = RELAY_ON then 0 else 1),
            Gpio_set_level (gpio_pin c) (if st = RELAY_ON then 0 else 1),
            Gpio_set_level (gpio_pin d) (if st = RELAY_ON then 0 else 1)]"
  using assms
  by (simp_all add: upt_4 all_step_def apply_gpio_state_def RELAY_ACTIVE_LOW_def gpio_set_level_def
      set_relay_def RELAY_COUNT_def)

lemma pack_states_4:
  "pack_states [a, b, c, d] =
     (if state a = RELAY_ON then 1 else 0) OR (if state b = RELAY_ON then 2 else 0) OR
     (if state c = RELAY_ON then 4 else 0) OR (if state d = RELAY_ON then 8 else 0)"
  by (simp add: pack_states_def pack_step_def upt_RELAY_COUNT)

lemma relay_all_eq:
  "relay_all st s = (ESP_OK, snd (relay_save_states (fold (all_step st) [0..<RELAY_COUNT] s)))"
  by (cases st) (simp_all add: relay_all_def relay_all_on_def relay_all_off_def save_if_persist_eq)

lemma extract_all_status: "extract_relay_id ''/relay/all/status'' = -2"
  by (simp add: extract_relay_id_def strncmp_eq_def)

text \<open>
  Claim C6. The bulk command for a state \<open>st\<close> succeeds, puts every relay in state
  \<open>st\<close>, and makes exactly these platform calls: one \<open>gpio_set_level\<close> per relay, in
  index order, followed by the calls of a single save, which writes at most one byte (one
  \<open>nvs_set_u8\<close>, made unless opening the store failed): the snapshot of all relays.
  Afterwards the status request for \<open>all\<close> lists every relay, in index order, in state
  \<open>st\<close>.
\<close>

theorem bulk_set_state:
  assumes "length (relays s) = RELAY_COUNT"
  shows "(let (r, s') = relay_all st s;
              lvl = (if st = RELAY_ON then 0 else 1);
              snapshot = (if st = RELAY_ON then 15 else 0)
          in r = ESP_OK
           \<and> (\<forall>i \<in> {0..<RELAY_COUNT}. state (relays s' ! i) = st
                  \<and> relay_get_state i s' = state_int st)
           \<and> handler_status ''/relay/all/status'' s' =
                 All_status (map (\<lambda>i. (i, name (relays s ! i), state_int st)) [0..<RELAY_COUNT])
           \<and> last_toggle_time s' = last_toggle_time s
           \<and> calls s' = calls s
                 @ map (\<lambda>i. Gpio_set_level (gpio_pin (relays s ! i)) lvl) [0..<RELAY_COUNT]
                 @ Nvs_open NVS_NAMESPACE NVS_READWRITE #
                   (if nvs_open_fault s \<noteq> ESP_OK then []
                    else Nvs_set_u8 NVS_KEY_RELAY_STATE snapshot #
                      (if nvs_set_fault s \<noteq> ESP_OK then [Nvs_close] else [Nvs_commit, Nvs_close]))
           \<and> (nvs_healthy s \<longrightarrow> stored_snapshot s' = Some snapshot))"
proof -
  obtain a b c d where abcd: "relays s = [a, b, c, d]"
    using assms by (rule length_RELAY_COUNT_E)
  define t where "t = fold (all_step st) [0..<RELAY_COUNT] s"
  define s' where "s' = snd (relay_save_states t)"
  have run: "relay_all st s = (ESP_OK, s')"
    by (simp add: relay_all_eq s'_def t_def)
  have rel: "relays s' = [a\<lparr>state := st\<rparr>, b\<lparr>state := st\<rparr>, c\<lparr>state := st\<rparr>, d\<lparr>state := st\<rparr>]"
    using all_loop_eq(1) [OF abcd] by (simp add: s'_def t_def)
  have pk: "pack_states (relays t) = (if st = RELAY_ON then 15 else 0)"
    using all_loop_eq(1) [OF abcd, of st] by (simp add: t_def pack_states_4)
  have states: "\<forall>i \<in> {0..<RELAY_COUNT}. state (relays s' ! i) = st \<and> relay_get_state i s' = state_int st"
    by (simp add: rel relay_get_state_def RELAY_COUNT_def upt_4 atLeastLessThan_upt [of 0 4])
  have status: "handler_status ''/relay/all/status'' s' =
      All_status (map (\<lambda>i. (i, name (relays s ! i), state_int st)) [0..<RELAY_COUNT])"
    by (simp add: handler_status_def extract_all_status status_entry_def relay_get_info_def
        rel abcd RELAY_COUNT_def upt_4)
  have led: "last_toggle_time s' = last_toggle_time s"
    by (simp add: s'_def t_def)
  have cl: "calls s' = calls s
      @ map (\<lambda>i. Gpio_set_level (gpio_pin (relays s ! i)) (if st = RELAY_ON then 0 else 1)) [0..<RELAY_COUNT]
      @ Nvs_open NVS_NAMESPACE NVS_READWRITE #
        (if nvs_open_fault s \<noteq> ESP_OK then []
         else Nvs_set_u8 NVS_KEY_RELAY_STATE (if st = RELAY_ON then 15 else 0) #
           (if nvs_set_fault s \<noteq> ESP_OK then [Nvs_close] else [Nvs_commit, Nvs_close]))"
  proof -
    have ct: "calls t = calls s @
        [Gpio_set_level (gpio_pin a) (if st = RELAY_ON then 0 else 1),
         Gpio_set_level (gpio_pin b) (if st = RELAY_ON then 0 else 1),
         Gpio_set_level (gpio_pin c) (if st = RELAY_ON then 0 else 1),
         Gpio_set_level (gpio_pin d) (if st = RELAY_ON then 0 else 1)]"
      using all_loop_eq(2) [OF abcd, of st] by (simp add: t_def)
    have mp: "map (\<lambda>i. Gpio_set_level (gpio_pin (relays s ! i)) lvl) [0..<RELAY_COUNT] =
        [Gpio_set_level (gpio_pin a) lvl, Gpio_set_level (gpio_pin b) lvl,
         Gpio_set_level (gpio_pin c) lvl, Gpio_set_level (gpio_pin d) lvl]" for lvl
      by (simp add: abcd upt_RELAY_COUNT)
    have ft: "nvs_open_fault t = nvs_open_fault s" "nvs_set_fault t = nvs_set_fault s"
      by (simp_all add: t_def)
    show ?thesis
      unfolding s'_def save_calls ct mp pk ft by simp
  qed
  have "nvs_healthy t = nvs_healthy s"
    by (simp add: nvs_healthy_def t_def)
  then have snap: "nvs_healthy s \<Longrightarrow> stored_snapshot s' = Some (if st = RELAY_ON then 15 else 0)"
    using save_healthy(2) [of t] pk by (simp add: s'_def)
  show ?thesis
    unfolding Let_def run prod.case
    using states status led cl snap by simp
qed

theorem bulk_set_state_witness:
  "length (relays (power_on blank_board)) = RELAY_COUNT
   \<and> nvs_healthy (power_on blank_board)
   \<and> fst (relay_all RELAY_ON (power_on blank_board)) = ESP_OK
   \<and> relay_get_state 3 (snd (relay_all RELAY_ON (power_on blank_board))) = 1
   \<and> handler_status ''/relay/all/status'' (snd (relay_all RELAY_ON (power_on blank_board))) =
        All_status [(0, ''Light 1'', 1), (1, ''Light 2'', 1), (2, ''Fan 1'', 1), (3, ''Fan 2'', 1)]
   \<and> calls (snd (relay_all RELAY_ON (power_on blank_board))) =
        [Gpio_set_level 16 0, Gpio_set_level 17 0, Gpio_set_level 18 0, Gpio_set_level 19 0,
         Nvs_open ''relay_ctrl'' NVS_READWRITE, Nvs_set_u8 ''relay_state'' 15, Nvs_commit, Nvs_close]
   \<and> stored_snapshot (snd (relay_all RELAY_ON (power_on blank_board))) = Some 15"
proof -
  have h1: "length (relays (power_on blank_board)) = RELAY_COUNT"
    by (simp add: length_relays_initial)
  have h2: "nvs_healthy (power_on blank_board)"
    by (simp add: nvs_healthy_def blank_board_healthy)
  have three: "(3::nat) \<in> {0..<RELAY_COUNT}" by (simp add: RELAY_COUNT_def)
  from bulk_set_state [OF h1, of RELAY_ON] h1 h2 three
  show ?thesis
    by (simp add: Let_def split_beta upt_RELAY_COUNT relays_initial_def blank_board_healthy
        NVS_NAMESPACE_def NVS_KEY_RELAY_STATE_def)
qed

subsection \<open>Persistence round trip\<close>

lemma pack_states_bits:
  "(pack_states [a, b, c, d] AND push_bit 0 1 \<noteq> 0) = (state a = RELAY_ON)"
  "(pack_states [a, b, c, d] AND push_bit (Suc 0) 1 \<noteq> 0) = (state b = RELAY_ON)"
  "(pack_states [a, b, c, d] AND push_bit 2 1 \<noteq> 0) = (state c = RELAY_ON)"
  "(pack_states [a, b, c, d] AND push_bit 3 1 \<noteq> 0) = (state d = RELAY_ON)"
  by (simp_all add: pack_states_4)

lemma pack_states_bit:
  assumes "i < RELAY_COUNT"
  shows "bit (pack_states [a, b, c, d]) i = (state ([a, b, c, d] ! i) = RELAY_ON)"
proof -
  from assms have "i = 0 \<or> i = 1 \<or> i = 2 \<or> i = 3"
    unfolding RELAY_COUNT_def by arith
  then consider "i = 0" | "i = 1" | "i = 2" | "i = 3"
    by blast
  then show ?thesis
    using pack_states_bits [of a b c d]
    by cases (simp_all add: bit_iff_and_push_bit_not_eq_0)
qed

lemma unpack_4:
  "fold (unpack_step p) [0..<RELAY_COUNT] [a, b, c, d] =
     [a\<lparr>state := (if p AND push_bit 0 1 \<noteq> 0 then RELAY_ON else RELAY_OFF)\<rparr>,
      b\<lparr>state := (if p AND push_bit (Suc 0) 1 \<noteq> 0 then RELAY_ON else RELAY_OFF)\<rparr>,
      c\<lparr>state := (if p AND push_bit 2 1 \<noteq> 0 then RELAY_ON else RELAY_OFF)\<rparr>,
      d\<lparr>state := (if p AND push_bit 3 1 \<noteq> 0 then RELAY_ON else RELAY_OFF)\<rparr>]"
  by (simp add: upt_RELAY_COUNT unpack_step_def)

lemma relay_state_if: "(if st = RELAY_ON then RELAY_ON else RELAY_OFF) = st"
  by (cases st) simp_all

lemma unpack_pack:
  "map state (fold (unpack_step (pack_states [a, b, c, d])) [0..<RELAY_COUNT] [a', b', c', d']) =
     map state [a, b, c, d]"
  unfolding unpack_4 pack_states_bits by (simp add: relay_state_if)

lemma load_stored:
  assumes "nvs_open_fault s = ESP_OK" and "nvs_get_fault s = ESP_OK"
    and "stored_snapshot s = Some p"
  shows "fst (relay_load_states s) = ESP_OK"
    and "relays (snd (relay_load_states s)) = fold (unpack_step p) [0..<RELAY_COUNT] (relays s)"
  using assms
  by (auto simp add: relay_load_states_def stored_snapshot_def platform_defs Let_def
      split: option.splits)

lemma stored_snapshot_cong: "nvs_store s = nvs_store t \<Longrightarrow> stored_snapshot s = stored_snapshot t"
  by (simp add: stored_snapshot_def)

text \<open>
  Claim C4. On a healthy store, saving a table of \<open>RELAY_COUNT\<close> relays succeeds and
  stores the byte whose bit \<open>i\<close> is set exactly when relay \<open>i\<close> is on; loading in any
  later state that holds this store (such as the state after a restart) succeeds and
  gives every relay the state it had when saved.
\<close>

theorem save_load_round_trip:
  assumes "length (relays s) = RELAY_COUNT" and "nvs_healthy s"
    and "length (relays s2) = RELAY_COUNT"
    and "nvs_open_fault s2 = ESP_OK" and "nvs_get_fault s2 = ESP_OK"
    and "nvs_store s2 = nvs_store (snd (relay_save_states s))"
  shows "fst (relay_save_states s) = ESP_OK
     \<and> stored_snapshot (snd (relay_save_states s)) = Some (pack_states (relays s))
     \<and> (\<forall>i \<in> {0..<RELAY_COUNT}. bit (pack_states (relays s)) i = (state (relays s ! i) = RELAY_ON))
     \<and> fst (relay_load_states s2) = ESP_OK
     \<and> map state (relays (snd (relay_load_states s2))) = map state (relays s)"
proof -
  obtain a b c d where abcd: "relays s = [a, b, c, d]"
    using assms(1) by (rule length_RELAY_COUNT_E)
  obtain a' b' c' d' where abcd': "relays s2 = [a', b', c', d']"
    using assms(3) by (rule length_RELAY_COUNT_E)
  have stored: "stored_snapshot s2 = Some (pack_states (relays s))"
    using stored_snapshot_cong [OF assms(6)] save_healthy(2) [OF assms(2)] by simp
  have bits: "\<forall>i \<in> {0..<RELAY_COUNT}. bit (pack_states (relays s)) i = (state (relays s ! i) = RELAY_ON)"
    using pack_states_bit [of _ a b c d] by (simp add: abcd)
  have restored: "map state (relays (snd (relay_load_states s2))) = map state (relays s)"
    unfolding load_stored(2) [OF assms(4) assms(5) stored] abcd abcd' by (rule unpack_pack)
  show ?thesis
    using save_healthy [OF assms(2)] bits load_stored(1) [OF assms(4) assms(5) stored] restored
    by simp
qed

theorem save_load_round_trip_witness:
  "length (relays (set_relay 2 RELAY_ON (power_on blank_board))) = RELAY_COUNT
   \<and> nvs_healthy (set_relay 2 RELAY_ON (power_on blank_board))
   \<and> fst (relay_save_states (set_relay 2 RELAY_ON (power_on blank_board))) = ESP_OK
   \<and> stored_snapshot (snd (relay_save_states (set_relay 2 RELAY_ON (power_on blank_board)))) = Some 4
   \<and> (2::nat) \<in> {0..<RELAY_COUNT}
   \<and> bit (pack_states (relays (set_relay 2 RELAY_ON (power_on blank_board)))) 2
        = (state (relays (set_relay 2 RELAY_ON (power_on blank_board)) ! 2) = RELAY_ON)
   \<and> fst (relay_load_states
        (power_on (snd (relay_save_states (set_relay 2 RELAY_ON (power_on blank_board)))))) = ESP_OK
   \<and> map state (relays (snd (relay_load_states
        (power_on (snd (relay_save_states (set_relay 2 RELAY_ON (power_on blank_board))))))))
        = [RELAY_OFF, RELAY_OFF, RELAY_ON, RELAY_OFF]"
proof -
  let ?s = "set_relay 2 RELAY_ON (power_on blank_board)"
  let ?s2 = "power_on (snd (relay_save_states ?s))"
  have h1: "length (relays ?s) = RELAY_COUNT" by (simp add: length_relays_initial)
  have h2: "nvs_healthy ?s" by (simp add: nvs_healthy_def blank_board_healthy)
  have h3: "length (relays ?s2) = RELAY_COUNT" by (simp add: length_relays_initial)
  have h4: "nvs_open_fault ?s2 = ESP_OK" by (simp add: blank_board_healthy)
  have h5: "nvs_get_fault ?s2 = ESP_OK" by (simp add: blank_board_healthy)
  have h6: "nvs_store ?s2 = nvs_store (snd (relay_save_states ?s))" by simp
  have rel: "relays ?s = [\<lparr>gpio_pin = 16, name = ''Light 1'', state = RELAY_OFF\<rparr>,
      \<lparr>gpio_pin = 17, name = ''Light 2'', state = RELAY_OFF\<rparr>,
      \<lparr>gpio_pin = 18, name = ''Fan 1'', state = RELAY_ON\<rparr>,
      \<lparr>gpio_pin = 19, name = ''Fan 2'', state = RELAY_OFF\<rparr>]"
    by (simp add: relays_initial_def RELAY_DEFAULT_STATE_def)
  have pk: "pack_states (relays ?s) = 4"
    unfolding rel pack_states_4 by simp
  have ms: "map state (relays ?s) = [RELAY_OFF, RELAY_OFF, RELAY_ON, RELAY_OFF]"
    unfolding rel by simp
  have two: "(2::nat) \<in> {0..<RELAY_COUNT}" by (simp add: RELAY_COUNT_def)
  from save_load_round_trip [OF h1 h2 h3 h4 h5 h6] two
  have b2: "bit (pack_states (relays ?s)) 2 = (state (relays ?s ! 2) = RELAY_ON)" by blast
  note rt = save_load_round_trip [OF h1 h2 h3 h4 h5 h6, unfolded pk ms]
  from rt have "fst (relay_save_states ?s) = ESP_OK"
    and "stored_snapshot (snd (relay_save_states ?s)) = Some 4"
    and "fst (relay_load_states ?s2) = ESP_OK"
    and "map state (relays (snd (relay_load_states ?s2))) = [RELAY_OFF, RELAY_OFF, RELAY_ON, RELAY_OFF]"
    by blast+
  with h1 h2 two b2 show ?thesis by blast
qed

subsection \<open>The relay table and the lines\<close>

lemma table_intact_length: "table_intact s \<Longrightarrow> length (relays s) = RELAY_COUNT"
  by (metis table_intact_def map_eq_imp_length_eq length_relays_initial)

lemma table_intact_pin:
  assumes "table_intact s" and "i < RELAY_COUNT"
  shows "gpio_pin (relays s ! i) = 16 + i"
proof -
  have "gpio_pin (relays s ! i) = map gpio_pin (relays s) ! i"
    using assms table_intact_length [OF assms(1)] by simp
  also have "\<dots> = map gpio_pin relays_initial ! i"
    using assms(1) by (simp add: table_intact_def)
  also have "\<dots> = 16 + i"
  proof -
    from assms(2) have "i = 0 \<or> i = 1 \<or> i = 2 \<or> i = 3"
      unfolding RELAY_COUNT_def by arith
    then show ?thesis by (auto simp: relays_initial_def)
  qed
  finally show ?thesis .
qed

lemma map_update_same:
  "(\<And>x. f (g x) = f x) \<Longrightarrow> map f (rs[i := g (rs ! i)]) = map f rs"
  by (induction rs arbitrary: i) (auto split: nat.splits)

lemma map_update_state [simp]:
  "map gpio_pin (rs[i := (rs ! i)\<lparr>state := st\<rparr>]) = map gpio_pin rs"
  "map name (rs[i := (rs ! i)\<lparr>state := st\<rparr>]) = map name rs"
  by (rule map_update_same [where g = "\<lambda>r. r\<lparr>state := st\<rparr>"], simp)+

lemma line_matches_alt:
  "line_matches s i =
     (gpio_level s (gpio_pin (relays s ! i)) =
        Some (if state (relays s ! i) = RELAY_ON then 0 else 1))"
  by (simp add: line_matches_def RELAY_ACTIVE_LOW_def)

lemma table_intact_set_relay [simp]: "table_intact (set_relay i st s) = table_intact s"
  by (simp add: table_intact_def)

lemma table_intact_apply [simp]: "table_intact (apply_gpio_state i s) = table_intact s"
  by (simp add: table_intact_def)

lemma table_intact_blink [simp]: "table_intact (blink_led s) = table_intact s"
  by (simp add: table_intact_def)

lemma table_intact_save [simp]: "table_intact (snd (relay_save_states s)) = table_intact s"
  by (simp add: table_intact_def)

lemma table_intact_ledger:
  "table_intact s \<Longrightarrow> table_intact (s\<lparr>last_toggle_time := (last_toggle_time s)[i := t]\<rparr>)"
  by (simp add: table_intact_def)

lemma line_matches_apply_same:
  "i < RELAY_COUNT \<Longrightarrow> line_matches (apply_gpio_state i s) i"
  by (simp add: line_matches_alt apply_gpio_state_eq)

lemma line_matches_apply_other:
  assumes "table_intact s" and "i < RELAY_COUNT" and "j < RELAY_COUNT" and "i \<noteq> j"
  shows "line_matches (apply_gpio_state j s) i = line_matches s i"
  using table_intact_pin [OF assms(1,2)] table_intact_pin [OF assms(1,3)] assms(3,4)
  by (simp add: line_matches_alt apply_gpio_state_eq)

lemma line_matches_set_other:
  "i \<noteq> j \<Longrightarrow> line_matches (set_relay j st s) i = line_matches s i"
  by (simp add: line_matches_alt)

lemma line_matches_blink:
  assumes "table_intact s" and "i < RELAY_COUNT"
  shows "line_matches (blink_led s) i = line_matches s i"
  using table_intact_pin [OF assms]
  by (simp add: line_matches_alt blink_led_eq LED_BUILTIN_GPIO_def)

lemma line_matches_save [simp]: "line_matches (snd (relay_save_states s)) i = line_matches s i"
  by (simp add: line_matches_alt)

lemma line_matches_ledger [simp]:
  "line_matches (s\<lparr>last_toggle_time := l\<rparr>) i = line_matches s i"
  by (simp add: line_matches_alt)

lemma lines_consistent_iff: "lines_consistent s = (\<forall>i < RELAY_COUNT. line_matches s i)"
  by (auto simp: lines_consistent_def)

lemma set_and_drive:
  assumes "table_intact s" and "lines_consistent s" and "j < RELAY_COUNT"
  shows "lines_consistent (apply_gpio_state j (set_relay j st s))"
  unfolding lines_consistent_iff
proof (intro allI impI)
  fix i assume i: "i < RELAY_COUNT"
  show "line_matches (apply_gpio_state j (set_relay j st s)) i"
  proof (cases "i = j")
    case True
    then show ?thesis using assms(3) by (simp add: line_matches_apply_same)
  next
    case False
    have "table_intact (set_relay j st s)" using assms(1) by simp
    from line_matches_apply_other [OF this i assms(3) False]
    show ?thesis
      using assms(2) i False by (simp add: line_matches_set_other lines_consistent_iff)
  qed
qed

lemma blink_consistent:
  "table_intact s \<Longrightarrow> lines_consistent (blink_led s) = lines_consistent s"
  by (simp add: lines_consistent_iff line_matches_blink)

lemma save_consistent [simp]:
  "lines_consistent (snd (relay_save_states s)) = lines_consistent s"
  by (simp add: lines_consistent_iff)

subsection \<open>Commands keep the lines consistent\<close>

lemma toggle_keeps_lines:
  assumes "table_intact s" and "lines_consistent s"
  shows "table_intact (snd (relay_toggle period ticks relay_id s))
     \<and> lines_consistent (snd (relay_toggle period ticks relay_id s))"
proof (cases "relay_id < RELAY_COUNT \<and> RELAY_DEBOUNCE_MS \<le> ticks * period - last_toggle_time s ! relay_id")
  case True
  define s1 where "s1 = s\<lparr>last_toggle_time := (last_toggle_time s)[relay_id := ticks * period]\<rparr>"
  have t1: "table_intact s1"
    unfolding s1_def using assms(1) by (rule table_intact_ledger)
  have l1: "lines_consistent s1"
    using assms(2) by (simp add: s1_def lines_consistent_iff)
  define s3 where "s3 = apply_gpio_state relay_id (set_relay relay_id (toggled (state (relays s ! relay_id))) s1)"
  have l3: "lines_consistent s3"
    unfolding s3_def using t1 l1 True by (simp add: set_and_drive)
  have t3: "table_intact s3"
    using t1 by (simp add: s3_def)
  have "snd (relay_toggle period ticks relay_id s) = snd (relay_save_states (blink_led s3))"
    using toggle_accepted_eq [where relay_id = relay_id and s = s and ticks = ticks and period = period] True
    by (simp add: Let_def s3_def s1_def save_if_persist_eq)
  then show ?thesis
    using t3 l3 by (simp add: blink_consistent)
next
  case False
  then have "snd (relay_toggle period ticks relay_id s) = s"
    by (auto simp: relay_toggle_def debounce_check_def Let_def not_le)
  then show ?thesis using assms by simp
qed

lemma set_state_keeps_lines:
  assumes "table_intact s" and "lines_consistent s"
  shows "table_intact (snd (relay_set_state relay_id st s))
     \<and> lines_consistent (snd (relay_set_state relay_id st s))"
proof (cases "relay_id < RELAY_COUNT")
  case True
  then show ?thesis
    using assms by (simp add: set_state_eq blink_consistent set_and_drive)
next
  case False
  then show ?thesis using assms by (simp add: relay_set_state_def)
qed

lemma all_step_keeps_lines:
  assumes "table_intact s \<and> lines_consistent s" and "i < RELAY_COUNT"
  shows "table_intact (all_step st i s) \<and> lines_consistent (all_step st i s)"
  using assms by (simp add: all_step_def set_and_drive)

lemma relay_all_keeps_lines:
  assumes "table_intact s" and "lines_consistent s"
  shows "table_intact (snd (relay_all st s)) \<and> lines_consistent (snd (relay_all st s))"
proof -
  have i0: "(0::nat) < RELAY_COUNT" and i1: "Suc 0 < RELAY_COUNT"
    and i2: "(2::nat) < RELAY_COUNT" and i3: "(3::nat) < RELAY_COUNT"
    by (simp_all add: RELAY_COUNT_def)
  note a0 = all_step_keeps_lines [OF conjI [OF assms] i0, of st]
  note a1 = all_step_keeps_lines [OF a0 i1, of st]
  note a2 = all_step_keeps_lines [OF a1 i2, of st]
  note a3 = all_step_keeps_lines [OF a2 i3, of st]
  from a3 show ?thesis
    by (simp add: relay_all_eq upt_RELAY_COUNT)
qed

subsection \<open>Start-up\<close>

lemma init_led_fields [simp]:
  "relays (init_led s) = relays s"
  "last_toggle_time (init_led s) = last_toggle_time s"
  "led_initialized (init_led s) = True"
  "nvs_store (init_led s) = nvs_store s"
  "nvs_open_fault (init_led s) = nvs_open_fault s"
  "nvs_get_fault (init_led s) = nvs_get_fault s"
  by (simp_all add: init_led_def gpio_config_def gpio_set_level_def Let_def)

lemma init_gpio_loop_fields [simp]:
  "relays (snd (init_gpio_loop is s)) = relays s"
  "last_toggle_time (snd (init_gpio_loop is s)) = last_toggle_time s"
  "led_initialized (snd (init_gpio_loop is s)) = led_initialized s"
  "nvs_store (snd (init_gpio_loop is s)) = nvs_store s"
  "nvs_open_fault (snd (init_gpio_loop is s)) = nvs_open_fault s"
  "nvs_get_fault (snd (init_gpio_loop is s)) = nvs_get_fault s"
  by (induction "is" arbitrary: s; simp add: gpio_config_def gpio_set_level_def Let_def)+

lemma unpack_loop_table [simp]:
  "map gpio_pin (fold (unpack_step p) is rs) = map gpio_pin rs"
  "map name (fold (unpack_step p) is rs) = map name rs"
  by (induction "is" arbitrary: rs; simp add: unpack_step_def)+

lemma load_fields [simp]:
  "map gpio_pin (relays (snd (relay_load_states s))) = map gpio_pin (relays s)"
  "map name (relays (snd (relay_load_states s))) = map name (relays s)"
  "last_toggle_time (snd (relay_load_states s)) = last_toggle_time s"
  "led_initialized (snd (relay_load_states s)) = led_initialized s"
  by (simp_all add: relay_load_states_def platform_defs Let_def split: option.splits)

lemma load_absent:
  "stored_snapshot s = None \<Longrightarrow> relays (snd (relay_load_states s)) = relays s"
  by (simp add: relay_load_states_def stored_snapshot_def platform_defs Let_def
      split: option.splits)

lemma apply_loop_fields [simp]:
  "relays (fold apply_gpio_state is s) = relays s"
  "last_toggle_time (fold apply_gpio_state is s) = last_toggle_time s"
  "led_initialized (fold apply_gpio_state is s) = led_initialized s"
  by (induction "is" arbitrary: s; simp)+

lemma apply_loop_consistent:
  assumes "table_intact s"
  shows "lines_consistent (fold apply_gpio_state [0..<RELAY_COUNT] s)"
  unfolding lines_consistent_iff
proof (intro allI impI)
  fix i assume "i < RELAY_COUNT"
  then have "i = 0 \<or> i = 1 \<or> i = 2 \<or> i = 3"
    unfolding RELAY_COUNT_def by arith
  moreover have lt: "(0::nat) < RELAY_COUNT" "Suc 0 < RELAY_COUNT" "(2::nat) < RELAY_COUNT"
    "(3::nat) < RELAY_COUNT"
    by (simp_all add: RELAY_COUNT_def)
  ultimately show "line_matches (fold apply_gpio_state [0..<RELAY_COUNT] s) i"
    using assms
    by (auto simp: upt_RELAY_COUNT line_matches_apply_same line_matches_apply_other)
qed

lemma init_result:
  assumes "relay_service_init (power_on p) = (ESP_OK, s)"
  shows "s = fold apply_gpio_state [0..<RELAY_COUNT]
           (snd (relay_load_states (snd (init_gpio_loop [0..<RELAY_COUNT] (init_led (power_on p))))))"
  using assms
  by (simp add: relay_service_init_def RELAY_PERSIST_STATE_def Let_def
      split: prod.splits if_splits)

lemma init_establishes:
  assumes "relay_service_init (power_on p) = (ESP_OK, s)"
  shows "table_intact s" and "lines_consistent s" and "led_initialized s"
    and "last_toggle_time s = replicate RELAY_COUNT 0"
    and "stored_snapshot p = None \<Longrightarrow> relays s = relays_initial"
proof -
  define s2 where "s2 = snd (init_gpio_loop [0..<RELAY_COUNT] (init_led (power_on p)))"
  define s3 where "s3 = snd (relay_load_states s2)"
  have s: "s = fold apply_gpio_state [0..<RELAY_COUNT] s3"
    using init_result [OF assms] by (simp add: s3_def s2_def)
  have t3: "table_intact s3"
    by (simp add: table_intact_def s3_def s2_def)
  show "table_intact s"
    using t3 by (simp add: s table_intact_def)
  show "lines_consistent s"
    unfolding s using t3 by (rule apply_loop_consistent)
  show "led_initialized s"
    by (simp add: s s3_def s2_def)
  show "last_toggle_time s = replicate RELAY_COUNT 0"
    by (simp add: s s3_def s2_def)
  show "relays s = relays_initial" if "stored_snapshot p = None"
  proof -
    have "stored_snapshot s2 = None"
      using that by (simp add: stored_snapshot_def s2_def)
    then show ?thesis
      by (simp add: s s3_def load_absent) (simp add: s2_def)
  qed
qed

lemma init_gpio_loop_ok:
  "(\<And>pin. gpio_config_ret s pin = ESP_OK) \<Longrightarrow> fst (init_gpio_loop is s) = ESP_OK"
  by (induction "is" arbitrary: s) (simp_all add: gpio_config_def gpio_set_level_def Let_def)

lemma init_blank_board: "relay_service_init (power_on blank_board) = (ESP_OK, booted)"
proof -
  have "fst (init_gpio_loop [0..<RELAY_COUNT] (init_led (power_on blank_board))) = ESP_OK"
    by (rule init_gpio_loop_ok)
      (simp add: init_led_def gpio_config_def gpio_set_level_def Let_def blank_board_def)
  then have "fst (relay_service_init (power_on blank_board)) = ESP_OK"
    by (simp add: relay_service_init_def Let_def split_beta)
  then show ?thesis
    by (simp add: booted_def prod_eq_iff)
qed

lemma reachable_booted: "reachable booted"
  using init_blank_board by (rule reachable.after_init)

lemma booted_fields:
  "relays booted = relays_initial"
  "last_toggle_time booted = replicate RELAY_COUNT 0"
  "led_initialized booted"
  "table_intact booted"
  using init_establishes [OF init_blank_board] stored_snapshot_blank by simp_all

lemma booted_calls:
  "calls booted =
     [Gpio_config 2, Gpio_set_level 2 0,
      Gpio_set_level 16 1, Gpio_config 16, Gpio_set_level 16 1,
      Gpio_set_level 17 1, Gpio_config 17, Gpio_set_level 17 1,
      Gpio_set_level 18 1, Gpio_config 18, Gpio_set_level 18 1,
      Gpio_set_level 19 1, Gpio_config 19, Gpio_set_level 19 1,
      Nvs_open ''relay_ctrl'' NVS_READONLY,
      Gpio_set_level 16 1, Gpio_set_level 17 1, Gpio_set_level 18 1, Gpio_set_level 19 1]"
  by (simp add: booted_def relay_service_init_def power_on_def blank_board_def init_led_def
      RELAY_COUNT_def upt_4 replicate_4 platform_defs Let_def relay_load_states_def
      RELAY_PERSIST_STATE_def apply_gpio_state_def RELAY_ACTIVE_LOW_def relays_initial_def
      RELAY_DEFAULT_STATE_def LED_BUILTIN_GPIO_def NVS_NAMESPACE_def)

lemma booted_healthy:
  "nvs_open_fault booted = ESP_OK" "nvs_set_fault booted = ESP_OK"
  "nvs_commit_fault booted = ESP_OK" "nvs_get_fault booted = ESP_OK"
  by (simp_all add: booted_def relay_service_init_def power_on_def blank_board_def init_led_def
      RELAY_COUNT_def upt_4 replicate_4 platform_defs Let_def relay_load_states_def
      RELAY_PERSIST_STATE_def apply_gpio_state_def RELAY_ACTIVE_LOW_def relays_initial_def
      RELAY_DEFAULT_STATE_def LED_BUILTIN_GPIO_def NVS_NAMESPACE_def)

subsection \<open>The invariant of the lines\<close>

lemma reachable_invariant:
  "reachable s \<Longrightarrow> table_intact s \<and> lines_consistent s"
proof (induction rule: reachable.induct)
  case (after_init p s)
  then show ?case by (simp add: init_establishes)
next
  case (after_toggle s period ticks relay_id)
  then show ?case by (simp add: toggle_keeps_lines)
next
  case (after_set_state s relay_id st)
  then show ?case by (simp add: set_state_keeps_lines)
next
  case (after_all_off s)
  then show ?case using relay_all_keeps_lines [of s RELAY_OFF] by (simp add: relay_all_def)
next
  case (after_all_on s)
  then show ?case using relay_all_keeps_lines [of s RELAY_ON] by (simp add: relay_all_def)
next
  case (store_fault s e1 e2 e3 e4)
  then show ?case by (simp add: table_intact_def lines_consistent_iff line_matches_alt)
qed

text \<open>
  Claim C7. In every state the service can be in, after a successful start-up and any
  sequence of commands, the line of every relay has been driven and the level last driven
  on it is the one the single polarity constant gives for the relay's logical state: the
  constant selects active-low, so the level is 0 exactly when the relay is on and 1
  exactly when it is off, for every relay alike.
\<close>

theorem lines_follow_logical_state:
  assumes "reachable s" and "i < RELAY_COUNT"
  shows "RELAY_ACTIVE_LOW
     \<and> (\<exists>lvl. gpio_level s (gpio_pin (relays s ! i)) = Some lvl
            \<and> (lvl = 0) = (state (relays s ! i) = RELAY_ON)
            \<and> (lvl = 1) = (state (relays s ! i) = RELAY_OFF))
     \<and> lines_consistent s"
proof -
  from reachable_invariant [OF assms(1)] have lc: "lines_consistent s" by simp
  with assms(2) have "line_matches s i" by (simp add: lines_consistent_iff)
  then have "gpio_level s (gpio_pin (relays s ! i)) =
      Some (if state (relays s ! i) = RELAY_ON then 0 else 1)"
    by (simp add: line_matches_alt)
  moreover have "state (relays s ! i) = RELAY_ON \<or> state (relays s ! i) = RELAY_OFF"
    by (cases "state (relays s ! i)") simp_all
  ultimately show ?thesis
    using lc by (auto simp: RELAY_ACTIVE_LOW_def)
qed

theorem lines_follow_logical_state_witness:
  "reachable (snd (relay_set_state 1 RELAY_ON booted))
   \<and> (1::nat) < RELAY_COUNT
   \<and> state (relays (snd (relay_set_state 1 RELAY_ON booted)) ! 1) = RELAY_ON
   \<and> gpio_level (snd (relay_set_state 1 RELAY_ON booted)) 17 = Some 0
   \<and> lines_consistent (snd (relay_set_state 1 RELAY_ON booted))"
proof -
  let ?s = "snd (relay_set_state 1 RELAY_ON booted)"
  have h1: "reachable ?s"
    using reachable_booted by (rule reachable.after_set_state)
  have h2: "(1::nat) < RELAY_COUNT" by (simp add: RELAY_COUNT_def)
  have rel: "relays ?s = relays_initial[1 := (relays_initial ! 1)\<lparr>state := RELAY_ON\<rparr>]"
    unfolding set_state_eq [OF h2] by (simp add: booted_fields)
  have st: "state (relays ?s ! 1) = RELAY_ON" and pin: "gpio_pin (relays ?s ! 1) = 17"
    unfolding rel by (simp_all add: relays_initial_def)
  from lines_follow_logical_state [OF h1 h2] h1 h2 st
  show ?thesis unfolding pin st by auto
qed

subsection \<open>The clock is 32 bits wide\<close>

lemma toggle_booted_accepted:
  "RELAY_DEBOUNCE_MS \<le> 100 * 10 - last_toggle_time booted ! 0"
  by (simp add: booted_fields RELAY_COUNT_def replicate_4 RELAY_DEBOUNCE_MS_def)

text \<open>
  Claim C2, as stated, at a late toggle. After start-up a toggle of relay 0 at tick 100
  (1000 ms) is accepted and turns the relay on. A toggle at tick 429496830 comes
  4294967300 ms later, far more than the window, but the tick-time the code computes is
  4294968300 modulo \<open>2 ^ 32\<close>, that is 1004, four milliseconds after the ledger entry: the
  toggle is rejected, the relay stays on and nothing changes.
\<close>

theorem toggle_rejected_after_clock_wrap:
  "fst (relay_toggle 10 100 0 booted) = 1
   \<and> last_toggle_time (snd (relay_toggle 10 100 0 booted)) ! 0 = 1000
   \<and> unat RELAY_DEBOUNCE_MS
        \<le> unat (429496830 :: 32 word) * unat (10 :: 32 word) - unat (100 :: 32 word) * unat (10 :: 32 word)
   \<and> relay_toggle 10 429496830 0 (snd (relay_toggle 10 100 0 booted))
        = (1, snd (relay_toggle 10 100 0 booted))"
proof -
  let ?s = "snd (relay_toggle 10 100 0 booted)"
  have h1: "(0::nat) < RELAY_COUNT" by (simp add: RELAY_COUNT_def)
  have len: "length (last_toggle_time booted) = RELAY_COUNT"
    by (simp add: booted_fields)
  have lenr: "length (relays booted) = RELAY_COUNT"
    by (simp add: booted_fields length_relays_initial)
  have s: "?s = save_if_persist (blink_led (apply_gpio_state 0
      (set_relay 0 (toggled (state (relays booted ! 0)))
        (booted\<lparr>last_toggle_time := (last_toggle_time booted)[0 := 100 * 10]\<rparr>))))"
    unfolding toggle_accepted_eq [OF h1 toggle_booted_accepted] Let_def by simp
  have st: "state (relays ?s ! 0) = RELAY_ON"
    unfolding s using lenr
    by (simp add: save_if_persist_eq booted_fields relays_initial_def RELAY_DEFAULT_STATE_def
        toggled_def)
  have first: "relay_toggle 10 100 0 booted = (1, ?s)"
    using toggle_accepted_eq [OF h1 toggle_booted_accepted] st
    by (simp add: Let_def prod_eq_iff s [symmetric])
  have led: "last_toggle_time ?s ! 0 = 1000"
    unfolding s using len h1 by (simp add: save_if_persist_eq)
  have late: "(429496830 :: 32 word) * 10 - 100 * 10 < RELAY_DEBOUNCE_MS"
    by (simp add: RELAY_DEBOUNCE_MS_def)
  have again: "relay_toggle 10 429496830 0 ?s = relay_toggle 10 100 0 booted"
    using second_toggle_without_delay [OF h1 len toggle_booted_accepted late] .
  have real: "unat RELAY_DEBOUNCE_MS
      \<le> unat (429496830 :: 32 word) * unat (10 :: 32 word) - unat (100 :: 32 word) * unat (10 :: 32 word)"
    by (simp add: RELAY_DEBOUNCE_MS_def)
  have f1: "fst (relay_toggle 10 100 0 booted) = 1"
    using arg_cong [OF first, of fst] by simp
  have again': "relay_toggle 10 429496830 0 ?s = (1, ?s)"
    unfolding again by (rule first)
  show ?thesis
    by (intro conjI) (fact f1, fact led, fact real, fact again')
qed

subsection \<open>The first toggle after start-up\<close>

lemma init_restores:
  assumes "relay_service_init (power_on p) = (ESP_OK, s)"
    and "nvs_open_fault p = ESP_OK" and "nvs_get_fault p = ESP_OK"
    and "stored_snapshot p = Some b"
    and "i < RELAY_COUNT"
  shows "state (relays s ! i) = (if bit b i then RELAY_ON else RELAY_OFF)"
proof -
  define s2 where "s2 = snd (init_gpio_loop [0..<RELAY_COUNT] (init_led (power_on p)))"
  have s: "relays s = relays (snd (relay_load_states s2))"
    using init_result [OF assms(1)] by (simp add: s2_def)
  have "stored_snapshot s2 = Some b"
    using assms(4) by (simp add: stored_snapshot_def s2_def)
  moreover have "nvs_open_fault s2 = ESP_OK" "nvs_get_fault s2 = ESP_OK"
    using assms(2,3) by (simp_all add: s2_def)
  ultimately have "relays s = fold (unpack_step b) [0..<RELAY_COUNT] (relays s2)"
    using load_stored(2) [of s2 b] by (simp add: s)
  moreover have "relays s2 = relays_initial"
    by (simp add: s2_def)
  moreover from assms(5) have "i = 0 \<or> i = 1 \<or> i = 2 \<or> i = 3"
    unfolding RELAY_COUNT_def by arith
  ultimately show ?thesis
    by (auto simp: relays_initial_def unpack_4 bit_iff_and_push_bit_not_eq_0)
qed

lemma saved_board_fields:
  "nvs_open_fault saved_board = ESP_OK" "nvs_get_fault saved_board = ESP_OK"
  "stored_snapshot saved_board = Some 1" "gpio_config_ret saved_board = (\<lambda>pin. ESP_OK)"
  by (simp_all add: saved_board_def blank_board_def stored_snapshot_def)

lemma init_saved_board:
  "relay_service_init (power_on saved_board) = (ESP_OK, snd (relay_service_init (power_on saved_board)))"
proof -
  have "fst (init_gpio_loop [0..<RELAY_COUNT] (init_led (power_on saved_board))) = ESP_OK"
    by (rule init_gpio_loop_ok)
      (simp add: init_led_def gpio_config_def gpio_set_level_def Let_def saved_board_fields)
  then have "fst (relay_service_init (power_on saved_board)) = ESP_OK"
    by (simp add: relay_service_init_def Let_def split_beta)
  then show ?thesis
    by (simp add: prod_eq_iff)
qed

text \<open>
  Claim C10, as stated, at a board with a stored snapshot. Start-up succeeds and restores
  relay 0 as on; the first toggle of relay 0, 30 ms after the tick count started, is
  rejected as debounced and returns 1, the restored state, where the default state is 0.
\<close>

theorem first_toggle_returns_restored_state:
  "fst (relay_service_init (power_on saved_board)) = ESP_OK
   \<and> last_toggle_time (snd (relay_service_init (power_on saved_board))) ! 0 = 0
   \<and> (3::32 word) * 10 < RELAY_DEBOUNCE_MS
   \<and> relay_toggle 10 3 0 (snd (relay_service_init (power_on saved_board)))
        = (1, snd (relay_service_init (power_on saved_board)))
   \<and> state_int RELAY_DEFAULT_STATE = 0
   \<and> fst (relay_toggle 10 3 0 (snd (relay_service_init (power_on saved_board))))
        \<noteq> state_int RELAY_DEFAULT_STATE"
proof -
  let ?s = "snd (relay_service_init (power_on saved_board))"
  have h2: "(0::nat) < RELAY_COUNT" by (simp add: RELAY_COUNT_def)
  have ok: "fst (relay_service_init (power_on saved_board)) = ESP_OK"
    using init_saved_board by (metis fst_conv)
  have led: "last_toggle_time ?s ! 0 = 0"
    using init_establishes(4) [OF init_saved_board] h2 by simp
  have h3: "(3::32 word) * 10 < RELAY_DEBOUNCE_MS" by (simp add: RELAY_DEBOUNCE_MS_def)
  have st: "state (relays ?s ! 0) = RELAY_ON"
    using init_restores [OF init_saved_board saved_board_fields(1,2,3) h2] by simp
  have "debounce_check 10 3 0 ?s = (False, ?s)"
    using led h3 by (simp add: debounce_check_def)
  then have "relay_toggle 10 3 0 ?s = (state_int (state (relays ?s ! 0)), ?s)"
    using h2 by (simp add: relay_toggle_def)
  then show ?thesis
    using ok led h3 st by (simp add: RELAY_DEFAULT_STATE_def)
qed

text \<open>No command other than an accepted toggle of relay \<open>i\<close> writes its ledger entry.\<close>

lemma toggle_ledger_other:
  assumes "relay_id \<noteq> i"
  shows "last_toggle_time (snd (relay_toggle period ticks relay_id s)) ! i = last_toggle_time s ! i"
proof (cases "relay_id < RELAY_COUNT \<and> RELAY_DEBOUNCE_MS \<le> ticks * period - last_toggle_time s ! relay_id")
  case True
  then have "last_toggle_time (snd (relay_toggle period ticks relay_id s)) =
      (last_toggle_time s)[relay_id := ticks * period]"
    unfolding toggle_accepted_eq [where relay_id = relay_id and s = s and ticks = ticks and period = period,
        OF conjunct1 [OF True] conjunct2 [OF True]] Let_def
    by (simp add: save_if_persist_eq)
  then show ?thesis using assms by simp
next
  case False
  then have "snd (relay_toggle period ticks relay_id s) = s"
    by (auto simp: relay_toggle_def debounce_check_def Let_def not_le)
  then show ?thesis by simp
qed

lemma toggle_rejected_same:
  assumes "\<not> fst (debounce_check period ticks i s)"
  shows "snd (relay_toggle period ticks i s) = s"
  using assms by (auto simp: relay_toggle_def debounce_check_def Let_def split: if_splits)

lemma set_state_ledger [simp]:
  "last_toggle_time (snd (relay_set_state relay_id st s)) = last_toggle_time s"
  by (simp add: relay_set_state_def save_if_persist_eq Let_def)

lemma relay_all_ledger [simp]:
  "last_toggle_time (snd (relay_all st s)) = last_toggle_time s"
  by (simp add: relay_all_eq)

lemma untoggled_entry:
  assumes "untoggled i s" and "i < RELAY_COUNT"
  shows "last_toggle_time s ! i = 0"
  using assms
proof (induction rule: untoggled.induct)
  case (fresh p s)
  then show ?case using init_establishes(4) [OF fresh(1)] by simp
next
  case (other_toggle s relay_id period ticks)
  then show ?case by (simp add: toggle_ledger_other)
next
  case (rejected_toggle s period ticks)
  then show ?case by (simp add: toggle_rejected_same)
next
  case (set_state s relay_id st)
  then show ?case by simp
next
  case (all_off s)
  then show ?case using relay_all_ledger [of RELAY_OFF s] by (simp add: relay_all_def)
next
  case (all_on s)
  then show ?case using relay_all_ledger [of RELAY_ON s] by (simp add: relay_all_def)
next
  case (faults s e1 e2 e3 e4)
  then show ?case by simp
qed

lemma all_on_booted_relay_0:
  "state (relays (snd (relay_all_on booted)) ! 0) = RELAY_ON"
proof -
  have rel: "relays booted = [\<lparr>gpio_pin = 16, name = ''Light 1'', state = RELAY_OFF\<rparr>,
      \<lparr>gpio_pin = 17, name = ''Light 2'', state = RELAY_OFF\<rparr>,
      \<lparr>gpio_pin = 18, name = ''Fan 1'', state = RELAY_OFF\<rparr>,
      \<lparr>gpio_pin = 19, name = ''Fan 2'', state = RELAY_OFF\<rparr>]"
    by (simp add: booted_fields relays_initial_def RELAY_DEFAULT_STATE_def)
  show ?thesis
    using all_loop_eq(1) [OF rel, of RELAY_ON]
    by (simp add: relay_all_on_def save_if_persist_eq)
qed

text \<open>
  Claim C10, amended. Start-up leaves the ledger entry of every relay at 0 and only an
  accepted toggle of a relay writes its entry. So in every state in which no toggle of
  relay \<open>i\<close> has been accepted since power-on, whatever other commands came before, a
  toggle of \<open>i\<close> at a time below \<open>RELAY_DEBOUNCE_MS\<close> is rejected as debounced: the
  state is unchanged and the result is the relay's current state, never the error value.
\<close>

theorem first_toggle_after_boot_debounced:
  assumes "untoggled relay_id s"
    and "relay_id < RELAY_COUNT"
    and "ticks * period < RELAY_DEBOUNCE_MS"
  shows "last_toggle_time s ! relay_id = 0
     \<and> relay_toggle period ticks relay_id s = (state_int (state (relays s ! relay_id)), s)
     \<and> fst (relay_toggle period ticks relay_id s) \<noteq> -1"
proof -
  have led: "last_toggle_time s ! relay_id = 0"
    using untoggled_entry [OF assms(1,2)] .
  have rej: "debounce_check period ticks relay_id s = (False, s)"
    using assms(3) led by (simp add: debounce_check_def)
  have res: "relay_toggle period ticks relay_id s = (state_int (state (relays s ! relay_id)), s)"
    using assms(2) rej by (simp add: relay_toggle_def)
  moreover have "state_int (state (relays s ! relay_id)) \<noteq> -1"
    using state_int_cases [of "state (relays s ! relay_id)"] by auto
  ultimately show ?thesis using led by simp
qed

theorem first_toggle_after_boot_debounced_witness:
  "untoggled 0 (snd (relay_all_on booted))
   \<and> (0::nat) < RELAY_COUNT
   \<and> (3::32 word) * 10 < RELAY_DEBOUNCE_MS
   \<and> last_toggle_time (snd (relay_all_on booted)) ! 0 = 0
   \<and> relay_toggle 10 3 0 (snd (relay_all_on booted)) = (1, snd (relay_all_on booted))"
proof -
  have h1: "untoggled 0 (snd (relay_all_on booted))"
    by (rule untoggled.all_on, rule untoggled.fresh, rule init_blank_board)
  have h2: "(0::nat) < RELAY_COUNT" by (simp add: RELAY_COUNT_def)
  have h3: "(3::32 word) * 10 < RELAY_DEBOUNCE_MS" by (simp add: RELAY_DEBOUNCE_MS_def)
  from first_toggle_after_boot_debounced [OF h1 h2 h3] h1 h2 h3 all_on_booted_relay_0
  show ?thesis by simp
qed

subsection \<open>The status indicator\<close>

text \<open>
  Claim C8, at the bulk command. After start-up on the blank board the indicator is
  initialised and all relays are off. \<open>relay_all_on\<close> turns the four relays on, and the
  platform calls it makes are the four line writes and the save: none is on the
  indicator's line. \<open>relay_set_state\<close> in the same state makes the three calls of the
  pulse between the line write and the save.
\<close>

theorem bulk_commands_skip_led_pulse:
  "led_initialized booted
   \<and> map state (relays booted) = [RELAY_OFF, RELAY_OFF, RELAY_OFF, RELAY_OFF]
   \<and> map state (relays (snd (relay_all_on booted))) = [RELAY_ON, RELAY_ON, RELAY_ON, RELAY_ON]
   \<and> calls (snd (relay_all_on booted)) = calls booted @
        [Gpio_set_level 16 0, Gpio_set_level 17 0, Gpio_set_level 18 0, Gpio_set_level 19 0,
         Nvs_open ''relay_ctrl'' NVS_READWRITE, Nvs_set_u8 ''relay_state'' 15,
         Nvs_commit, Nvs_close]
   \<and> calls (snd (relay_set_state 0 RELAY_ON booted)) = calls booted @
        [Gpio_set_level 16 0,
         Gpio_set_level 2 1, TaskDelay_ms 50, Gpio_set_level 2 0,
         Nvs_open ''relay_ctrl'' NVS_READWRITE, Nvs_set_u8 ''relay_state'' 1,
         Nvs_commit, Nvs_close]"
proof -
  let ?a = "\<lparr>gpio_pin = 16, name = ''Light 1'', state = RELAY_OFF\<rparr>"
  let ?b = "\<lparr>gpio_pin = 17, name = ''Light 2'', state = RELAY_OFF\<rparr>"
  let ?c = "\<lparr>gpio_pin = 18, name = ''Fan 1'', state = RELAY_OFF\<rparr>"
  let ?d = "\<lparr>gpio_pin = 19, name = ''Fan 2'', state = RELAY_OFF\<rparr>"
  have rel: "relays booted = [?a, ?b, ?c, ?d]"
    by (simp add: booted_fields relays_initial_def RELAY_DEFAULT_STATE_def)
  define t where "t = fold (all_step RELAY_ON) [0..<RELAY_COUNT] booted"
  have on: "snd (relay_all_on booted) = snd (relay_save_states t)"
    by (simp add: relay_all_on_def save_if_persist_eq t_def)
  have rt: "relays t = [?a\<lparr>state := RELAY_ON\<rparr>, ?b\<lparr>state := RELAY_ON\<rparr>, ?c\<lparr>state := RELAY_ON\<rparr>,
      ?d\<lparr>state := RELAY_ON\<rparr>]"
    unfolding t_def by (rule all_loop_eq(1) [OF rel])
  have ct: "calls t = calls booted @
      [Gpio_set_level 16 0, Gpio_set_level 17 0, Gpio_set_level 18 0, Gpio_set_level 19 0]"
    unfolding t_def using all_loop_eq(2) [OF rel, of RELAY_ON] by simp
  have ft: "nvs_open_fault t = ESP_OK" "nvs_set_fault t = ESP_OK"
    by (simp_all add: t_def booted_healthy)
  have c_all: "calls (snd (relay_all_on booted)) = calls booted @
      [Gpio_set_level 16 0, Gpio_set_level 17 0, Gpio_set_level 18 0, Gpio_set_level 19 0,
       Nvs_open ''relay_ctrl'' NVS_READWRITE, Nvs_set_u8 ''relay_state'' 15, Nvs_commit, Nvs_close]"
    unfolding on save_calls ct ft rt pack_states_4
    by (simp add: NVS_NAMESPACE_def NVS_KEY_RELAY_STATE_def)
  have s_all: "map state (relays (snd (relay_all_on booted))) = [RELAY_ON, RELAY_ON, RELAY_ON, RELAY_ON]"
    unfolding on by (simp add: rt)
  define u where "u = blink_led (apply_gpio_state 0 (set_relay 0 RELAY_ON booted))"
  have one: "snd (relay_set_state 0 RELAY_ON booted) = snd (relay_save_states u)"
    by (simp add: relay_set_state_def save_if_persist_eq u_def RELAY_COUNT_def Let_def)
  have ru: "relays u = [?a\<lparr>state := RELAY_ON\<rparr>, ?b, ?c, ?d]"
    by (simp add: u_def rel)
  have cu: "calls u = calls booted @
      [Gpio_set_level 16 0, Gpio_set_level 2 1, TaskDelay_ms 50, Gpio_set_level 2 0]"
    by (simp add: u_def blink_led_eq apply_gpio_state_eq RELAY_COUNT_def rel booted_fields
        led_pulse_def LED_BUILTIN_GPIO_def LED_BLINK_ON_MS_def)
  have fu: "nvs_open_fault u = ESP_OK" "nvs_set_fault u = ESP_OK"
    by (simp_all add: u_def booted_healthy)
  have c_one: "calls (snd (relay_set_state 0 RELAY_ON booted)) = calls booted @
      [Gpio_set_level 16 0, Gpio_set_level 2 1, TaskDelay_ms 50, Gpio_set_level 2 0,
       Nvs_open ''relay_ctrl'' NVS_READWRITE, Nvs_set_u8 ''relay_state'' 1, Nvs_commit, Nvs_close]"
    unfolding one save_calls cu fu ru pack_states_4
    by (simp add: NVS_NAMESPACE_def NVS_KEY_RELAY_STATE_def)
  show ?thesis
    using booted_fields(3) rel s_all c_all c_one by simp
qed

subsection \<open>The request parser\<close>

text \<open>
  Claim C9, at a non-numeric id. For the id \<open>abc\<close> the parser returns relay 0, not the
  invalid-target value \<open>-1\<close>, and the status handler answers with the status of relay 0;
  an out-of-range decimal id gives \<open>-1\<close> and the token \<open>all\<close> gives \<open>-2\<close>.
\<close>

theorem non_numeric_id_selects_relay_0:
  "extract_relay_id ''/relay/abc/toggle'' = 0
   \<and> handler_status ''/relay/abc/status'' booted = Relay_status 0 ''Light 1'' 0
   \<and> extract_relay_id ''/relay/7/toggle'' = -1
   \<and> extract_relay_id ''/relay/all/on'' = -2"
proof -
  have "extract_relay_id ''/relay/abc/toggle'' = 0"
    and "extract_relay_id ''/relay/abc/status'' = 0"
    and "extract_relay_id ''/relay/7/toggle'' = -1"
    and "extract_relay_id ''/relay/all/on'' = -2"
    by (simp_all add: parser_defs)
  then show ?thesis
    by (simp add: handler_status_def relay_get_info_def RELAY_COUNT_def booted_fields
        relays_initial_def RELAY_DEFAULT_STATE_def)
qed

end
